theory Spec2Isabelle
  imports Complex_Main "HOL-Library.AList" "HOL-Library.Log_Nat"
begin

section \<open>CHEDS analytics dashboard: loading, registry and aggregation\<close>

text \<open>
  A shallow embedding of \<^verbatim>\<open>cheds_analytics_dashboard.py\<close>: the three places that
  load CSV files into the session state (the module-level start-up block, the function
  \<^verbatim>\<open>auto_load_csv_files\<close> behind the reload button, and the upload loop of
  \<^verbatim>\<open>main\<close>), the overview and domain metrics of \<^verbatim>\<open>display_overview\<close>, and the
  percentages of \<^verbatim>\<open>display_learning_teaching\<close> and \<^verbatim>\<open>display_human_resources\<close>.

  Python's unbounded integers are \<open>int\<close>. A Python float is an IEEE 754 double: a
  finite one is the rational number it denotes, and every division and multiplication
  that yields a float rounds to the nearest double, ties to even. A raised exception is
  the \<open>Inl\<close> branch of a sum.
\<close>

subsection \<open>Strings: \<^verbatim>\<open>str.split\<close>, \<^verbatim>\<open>str.rfind\<close> and \<^verbatim>\<open>Path.stem\<close>\<close>

text \<open>
  \<^verbatim>\<open>s.split(c)\<close> for a one-character separator: the pieces between the separators,
  never an empty list.
\<close>

fun str_split :: "char \<Rightarrow> string \<Rightarrow> string list" where
  "str_split c [] = [[]]"
| "str_split c (x # xs) =
     (if x = c then [] # str_split c xs
      else (case str_split c xs of
              [] \<Rightarrow> [[x]]
            | w # ws \<Rightarrow> (x # w) # ws))"

text \<open>\<^verbatim>\<open>s.rfind(c)\<close>: the index of the last occurrence of \<open>c\<close>, or \<open>-1\<close>.\<close>

fun rfind :: "char \<Rightarrow> string \<Rightarrow> int" where
  "rfind c [] = - 1"
| "rfind c (x # xs) =
     (let r = rfind c xs
      in if 0 \<le> r then r + 1 else if x = c then 0 else - 1)"

text \<open>
  \<^verbatim>\<open>Path.stem\<close> of pathlib, on the final path component:
  \<^verbatim>\<open>
  i = name.rfind('.')
  if 0 < i < len(name) - 1: return name[:i]
  else: return name
  \<close>
\<close>

definition stem :: "string \<Rightarrow> string" where
  "stem nm =
     (let i = rfind (CHR ''.'') nm
      in if 0 < i \<and> i < int (length nm) - 1 then take (nat i) nm else nm)"

text \<open>
  The product id of a file found in the directory
  (\<^verbatim>\<open>file_path.stem.split('_')[0]\<close>, lines 191 and 257) and of an uploaded file
  (\<^verbatim>\<open>file.name.split('_')[0]\<close>, line 3013). \<open>str_split\<close> never returns the empty
  list (lemma \<open>str_split_not_Nil\<close>), so \<open>hd\<close> is Python's \<^verbatim>\<open>[0]\<close> here.
\<close>

definition path_product_id :: "string \<Rightarrow> string" where
  "path_product_id nm = hd (str_split (CHR ''_'') (stem nm))"

definition upload_product_id :: "string \<Rightarrow> string" where
  "upload_product_id nm = hd (str_split (CHR ''_'') nm)"

subsection \<open>Tables, datasets and the session state\<close>

datatype error = ParseError | ZeroDivisionError | OverflowError

datatype cell = Text string | Number rat | Missing

text \<open>
  A pandas DataFrame as far as the program reads it: the column names in order and the
  rows in order. \<^verbatim>\<open>len(df)\<close> is the number of rows, \<^verbatim>\<open>len(df.columns)\<close> the number
  of columns.
\<close>

record dataframe =
  df_columns :: "string list"
  df_rows :: "cell list list"

text \<open>
  The dictionary stored per product:
  \<^verbatim>\<open>{'data': df, 'filename': ..., 'rows': len(df), 'columns': len(df.columns)}\<close>.
\<close>

record dataset =
  data :: dataframe
  filename :: string
  rows :: int
  columns :: int

definition entry :: "dataframe \<Rightarrow> string \<Rightarrow> dataset" where
  "entry df fname =
     \<lparr>data = df, filename = fname,
      rows = int (length (df_rows df)),
      columns = int (length (df_columns df))\<rparr>"

text \<open>
  \<^verbatim>\<open>st.session_state.datasets\<close> is a Python dict: keys are unique and keep their
  insertion order. It is an association list; \<^verbatim>\<open>d[k] = v\<close> is \<open>AList.update k v\<close>
  (replace in place when the key is present, append otherwise).
\<close>

type_synonym registry = "(string \<times> dataset) list"

record session_state =
  data_loaded :: bool
  datasets :: registry
  auto_load_attempted :: bool

text \<open>Lines 165 to 170: the state of a fresh session.\<close>

definition initial_state :: session_state where
  "initial_state = \<lparr>data_loaded = False, datasets = [], auto_load_attempted = False\<rparr>"

text \<open>
  A CSV file as the loaders see it: its name, and what
  \<^verbatim>\<open>pd.read_csv(file, encoding='utf-8-sig')\<close> does on it, either raising or returning
  a table. The parser itself is pandas and is not modelled.
\<close>

record csv_file =
  name :: string
  read_csv :: "error + dataframe"

subsection \<open>The three loaders\<close>

text \<open>
  The start-up block (lines 173 to 202). The directory is \<open>None\<close> when none of the
  candidate paths exists, and otherwise the result of \<^verbatim>\<open>glob("*.csv")\<close>. Each file is
  read inside \<^verbatim>\<open>try ... except Exception: pass\<close>.
\<close>

fun startup_loop :: "csv_file list \<Rightarrow> registry \<Rightarrow> registry" where
  "startup_loop [] ds = ds"
| "startup_loop (f # fs) ds =
     (case read_csv f of
        Inl e \<Rightarrow> startup_loop fs ds
      | Inr df \<Rightarrow>
          startup_loop fs
            (AList.update (path_product_id (name f)) (entry df (name f)) ds))"

definition startup_auto_load :: "csv_file list option \<Rightarrow> session_state \<Rightarrow> session_state" where
  "startup_auto_load csv_dir s =
     (if \<not> auto_load_attempted s then
        (let s1 = s\<lparr>auto_load_attempted := True\<rparr>
         in case csv_dir of
              None \<Rightarrow> s1
            | Some csv_files \<Rightarrow>
                if csv_files \<noteq> [] \<and> \<not> data_loaded s1 then
                  (let ds = startup_loop csv_files []
                   in if ds \<noteq> [] then s1\<lparr>datasets := ds, data_loaded := True\<rparr> else s1)
                else s1)
      else s)"

text \<open>
  \<^verbatim>\<open>auto_load_csv_files\<close> (lines 233 to 274), called by the reload button. Its loop
  has no \<^verbatim>\<open>try\<close>: an exception of \<^verbatim>\<open>pd.read_csv\<close> leaves the function before the
  session state is assigned. The progress bar is display only.
\<close>

fun reload_loop :: "csv_file list \<Rightarrow> registry \<Rightarrow> error + registry" where
  "reload_loop [] ds = Inr ds"
| "reload_loop (f # fs) ds =
     (case read_csv f of
        Inl e \<Rightarrow> Inl e
      | Inr df \<Rightarrow>
          reload_loop fs
            (AList.update (path_product_id (name f)) (entry df (name f)) ds))"

definition auto_load_csv_files ::
  "csv_file list option \<Rightarrow> session_state \<Rightarrow> (error + bool) \<times> session_state" where
  "auto_load_csv_files csv_dir s =
     (case csv_dir of
        None \<Rightarrow> (Inr False, s)
      | Some csv_files \<Rightarrow>
          if csv_files \<noteq> [] then
            (case reload_loop csv_files [] of
               Inl e \<Rightarrow> (Inl e, s)
             | Inr ds \<Rightarrow> (Inr True, s\<lparr>datasets := ds, data_loaded := True\<rparr>))
          else (Inr False, s))"

text \<open>
  The upload loop of \<^verbatim>\<open>main\<close> (lines 3010 to 3020). It writes into
  \<^verbatim>\<open>st.session_state.datasets\<close> file by file, so an exception of \<^verbatim>\<open>pd.read_csv\<close>
  leaves the entries stored so far in place, and \<^verbatim>\<open>data_loaded = True\<close> is not reached.
\<close>

fun upload_loop :: "csv_file list \<Rightarrow> session_state \<Rightarrow> (error + unit) \<times> session_state" where
  "upload_loop [] s = (Inr (), s)"
| "upload_loop (f # fs) s =
     (case read_csv f of
        Inl e \<Rightarrow> (Inl e, s)
      | Inr df \<Rightarrow>
          upload_loop fs
            (s\<lparr>datasets :=
                 AList.update (upload_product_id (name f)) (entry df (name f)) (datasets s)\<rparr>))"

definition upload_files :: "csv_file list \<Rightarrow> session_state \<Rightarrow> (error + unit) \<times> session_state" where
  "upload_files uploaded_files s =
     (if uploaded_files \<noteq> [] then
        (case upload_loop uploaded_files s of
           (Inl e, s') \<Rightarrow> (Inl e, s')
         | (Inr u, s') \<Rightarrow> (Inr (), s'\<lparr>data_loaded := True\<rparr>))
      else (Inr (), s))"

subsection \<open>The catalog\<close>

text \<open>\<^verbatim>\<open>PRODUCT_CATEGORIES\<close> (lines 205 to 231): seven domains, 41 product ids.\<close>

definition PRODUCT_CATEGORIES :: "(string \<times> string list) list" where
  "PRODUCT_CATEGORIES =
     [(''Learning and Teaching'',
        [''CHEDS-LT-01'', ''CHEDS-LT-02'', ''CHEDS-LT-03'', ''CHEDS-LT-04'', ''CHEDS-LT-05'',
         ''CHEDS-LT-06'', ''CHEDS-LT-07'', ''CHEDS-LT-08'', ''CHEDS-LT-09'', ''CHEDS-LT-10'',
         ''CHEDS-LT-11'', ''CHEDS-LT-12'', ''CHEDS-LT-13'', ''CHEDS-LT-14'', ''CHEDS-LT-15'',
         ''CHEDS-LT-16'', ''CHEDS-LT-17'', ''CHEDS-LT-18'', ''CHEDS-LT-19'', ''CHEDS-LT-20'']),
      (''Human Resource Management'',
        [''CHEDS-HR-21'', ''CHEDS-HR-22'', ''CHEDS-HR-23'', ''CHEDS-HR-24'']),
      (''Financial Management'',
        [''CHEDS-FIN-25'']),
      (''Research'',
        [''CHEDS-RES-26'', ''CHEDS-RES-27'', ''CHEDS-RES-28'', ''CHEDS-RES-29'',
         ''CHEDS-RES-30'', ''CHEDS-RES-31'', ''CHEDS-RES-32'']),
      (''Facilities & Estate Management'',
        [''CHEDS-FAC-33'', ''CHEDS-FAC-34'']),
      (''Supporting Services'',
        [''CHEDS-SUP-35'', ''CHEDS-SUP-36'', ''CHEDS-SUP-40'', ''CHEDS-SUP-41'']),
      (''Advancement Management'',
        [''CHEDS-ADV-37'', ''CHEDS-ADV-38'', ''CHEDS-ADV-39''])]"

subsection \<open>Floats, division and percentages\<close>

text \<open>
  Rounding to a double. For \<open>a > 0\<close>, \<open>floor_log2 a\<close> is the exponent \<open>e\<close> with
  \<open>2^e \<le> a < 2^(e+1)\<close> (\<open>bitlen\<close> is Python's \<^verbatim>\<open>int.bit_length\<close>); a double has 53
  significant bits and no exponent below \<open>-1022\<close>, so its neighbours around \<open>a\<close> are
  \<open>ulp a\<close> apart; \<open>round_double\<close> takes the nearest multiple of \<open>ulp\<close>, the even
  one on a tie. The result is not bounded above here: \<open>float_of\<close> turns a result
  beyond the largest double into an infinity.
\<close>

definition floor_log2 :: "rat \<Rightarrow> int" where
  "floor_log2 x =
     (if 1 \<le> x then bitlen \<lfloor>x\<rfloor> - 1
      else - bitlen (\<lceil>1 / x\<rceil> - 1))"

definition round_half_even :: "rat \<Rightarrow> int" where
  "round_half_even m =
     (let f = \<lfloor>m\<rfloor>; d = m - of_int f
      in if d < 1 / 2 then f
         else if 1 / 2 < d then f + 1
         else if even f then f else f + 1)"

definition ulp :: "rat \<Rightarrow> rat" where
  "ulp a = 2 powi (max (floor_log2 a) (- 1022) - 52)"

definition round_double :: "rat \<Rightarrow> rat" where
  "round_double x =
     (if x = 0 then 0
      else sgn x * (of_int (round_half_even (\<bar>x\<bar> / ulp \<bar>x\<bar>)) * ulp \<bar>x\<bar>))"

datatype pyfloat = Finite rat | NaN | PosInf | NegInf

definition float_of :: "rat \<Rightarrow> pyfloat" where
  "float_of r =
     (if 2 ^ 1024 \<le> r then PosInf
      else if r \<le> - (2 ^ 1024) then NegInf
      else Finite r)"

text \<open>
  \<^verbatim>\<open>a / b\<close> on two Python integers is the correctly rounded quotient; it raises
  \<^verbatim>\<open>ZeroDivisionError\<close> when \<open>b\<close> is zero and \<^verbatim>\<open>OverflowError\<close> when the quotient
  is too large for a float. The expression \<^verbatim>\<open>a / b * 100\<close> is written at every
  percentage of the program (lines 343, 506, 509, 840 to 847); the sites differ in the
  guard around it. The product of a float and \<open>100\<close> is rounded again and does not
  raise.
\<close>

definition py_truediv :: "int \<Rightarrow> int \<Rightarrow> error + rat" where
  "py_truediv a b =
     (if b = 0 then Inl ZeroDivisionError
      else (case float_of (round_double (of_int a / of_int b)) of
              Finite q \<Rightarrow> Inr q
            | _ \<Rightarrow> Inl OverflowError))"

definition ratio_times_100 :: "int \<Rightarrow> int \<Rightarrow> error + pyfloat" where
  "ratio_times_100 a b =
     (case py_truediv a b of
        Inl e \<Rightarrow> Inl e
      | Inr q \<Rightarrow> Inr (float_of (round_double (q * 100))))"

text \<open>
  A count that pandas computes (\<^verbatim>\<open>(df[c] == v).sum()\<close>) is a \<^verbatim>\<open>numpy.int64\<close>.
  numpy converts both operands of \<^verbatim>\<open>/\<close> to doubles and divides them; its scalar
  division by zero warns and returns \<^verbatim>\<open>nan\<close> or an infinity instead of raising. The
  two kinds of integer are kept apart.
\<close>

datatype pynum = PyInt int | NpInt int

definition np_truediv :: "int \<Rightarrow> int \<Rightarrow> pyfloat" where
  "np_truediv a b =
     (if b \<noteq> 0
      then float_of (round_double (round_double (of_int a) / round_double (of_int b)))
      else if a = 0 then NaN
      else if 0 < a then PosInf else NegInf)"

fun times_100 :: "pyfloat \<Rightarrow> pyfloat" where
  "times_100 (Finite q) = float_of (round_double (q * 100))"
| "times_100 NaN = NaN"
| "times_100 PosInf = PosInf"
| "times_100 NegInf = NegInf"

text \<open>\<^verbatim>\<open>count / total_employees * 100\<close> with \<^verbatim>\<open>total_employees = len(df)\<close>, unguarded.\<close>

fun share_pct :: "pynum \<Rightarrow> int \<Rightarrow> error + pyfloat" where
  "share_pct (PyInt c) n = ratio_times_100 c n"
| "share_pct (NpInt c) n = Inr (times_100 (np_truediv c n))"

subsection \<open>\<^verbatim>\<open>display_overview\<close>\<close>

text \<open>Lines 311 to 314. \<^verbatim>\<open>//\<close> on integers is floor division, as \<open>div\<close> on \<open>int\<close>.\<close>

record overview =
  total_products :: int
  total_rows :: int
  total_columns :: int
  avg_records_per_product :: int

definition overview_metrics :: "registry \<Rightarrow> overview" where
  "overview_metrics ds =
     \<lparr>total_products = int (length ds),
      total_rows = sum_list (map (\<lambda>kv. rows (snd kv)) ds),
      total_columns = sum_list (map (\<lambda>kv. columns (snd kv)) ds),
      avg_records_per_product =
        (if 0 < int (length ds)
         then sum_list (map (\<lambda>kv. rows (snd kv)) ds) div int (length ds)
         else 0)\<rparr>"

text \<open>
  Lines 333 to 344, one row of \<^verbatim>\<open>domain_data\<close> per catalog domain. The keys of
  \<open>loaded_products\<close> are in the dict by the filter, so \<^verbatim>\<open>datasets[p]\<close> is
  \<open>the (map_of ds p)\<close> there (lemma \<open>loaded_products_present\<close>).
\<close>

record domain_row =
  dr_domain :: string
  dr_products :: int
  dr_total_products :: int
  dr_records :: int
  dr_avg_columns :: pyfloat
  dr_coverage_pct :: pyfloat

definition loaded_products :: "registry \<Rightarrow> string list \<Rightarrow> string list" where
  "loaded_products ds products = filter (\<lambda>p. map_of ds p \<noteq> None) products"

definition domain_summary :: "registry \<Rightarrow> string \<times> string list \<Rightarrow> error + domain_row" where
  "domain_summary ds dp =
     (let products = snd dp;
          loaded = loaded_products ds products;
          total_records = sum_list (map (\<lambda>p. rows (the (map_of ds p))) loaded)
      in case (if loaded \<noteq> []
               then (case py_truediv (sum_list (map (\<lambda>p. columns (the (map_of ds p))) loaded))
                            (int (length loaded)) of
                       Inl e \<Rightarrow> Inl e
                     | Inr q \<Rightarrow> Inr (Finite q))
               else Inr (Finite 0)) of
           Inl e \<Rightarrow> Inl e
         | Inr avg_cols \<Rightarrow>
             (case (if products \<noteq> []
                    then ratio_times_100 (int (length loaded)) (int (length products))
                    else Inr (Finite 0)) of
                Inl e \<Rightarrow> Inl e
              | Inr coverage \<Rightarrow>
                  Inr \<lparr>dr_domain = fst dp,
                       dr_products = int (length loaded),
                       dr_total_products = int (length products),
                       dr_records = total_records,
                       dr_avg_columns = avg_cols,
                       dr_coverage_pct = coverage\<rparr>))"

fun domain_data_loop :: "registry \<Rightarrow> (string \<times> string list) list \<Rightarrow> error + domain_row list" where
  "domain_data_loop ds [] = Inr []"
| "domain_data_loop ds (dp # rest) =
     (case domain_summary ds dp of
        Inl e \<Rightarrow> Inl e
      | Inr r \<Rightarrow>
          (case domain_data_loop ds rest of
             Inl e \<Rightarrow> Inl e
           | Inr rs \<Rightarrow> Inr (r # rs)))"

definition domain_data :: "registry \<Rightarrow> error + domain_row list" where
  "domain_data ds = domain_data_loop ds PRODUCT_CATEGORIES"

subsection \<open>Percentages of the domain views\<close>

text \<open>
  Lines 506 and 509 of \<^verbatim>\<open>display_learning_teaching\<close>, each with its own guard, on
  integer totals.
\<close>

definition acceptance_rate :: "int \<Rightarrow> int \<Rightarrow> error + pyfloat" where
  "acceptance_rate total_enrolled total_applicants =
     (if 0 < total_applicants then ratio_times_100 total_enrolled total_applicants
      else Inr (Finite 0))"

definition graduation_rate :: "int \<Rightarrow> int \<Rightarrow> error + pyfloat" where
  "graduation_rate total_graduates total_enrolled =
     (if 0 < total_enrolled then ratio_times_100 total_graduates total_enrolled
      else Inr (Finite 0))"

text \<open>
  Lines 832 to 847 of \<^verbatim>\<open>display_human_resources\<close>.
  \<^verbatim>\<open>(df[c] == v).sum() if c in df.columns else 0\<close> is a numpy count when the column
  is present and the Python integer \<open>0\<close> otherwise. A short row reads as missing.
\<close>

fun col_index :: "string \<Rightarrow> string list \<Rightarrow> nat option" where
  "col_index c [] = None"
| "col_index c (x # xs) =
     (if x = c then Some 0 else map_option Suc (col_index c xs))"

definition cell_at :: "cell list \<Rightarrow> nat \<Rightarrow> cell" where
  "cell_at r i = (if i < length r then r ! i else Missing)"

definition count_eq :: "dataframe \<Rightarrow> string \<Rightarrow> string \<Rightarrow> pynum" where
  "count_eq df c v =
     (case col_index c (df_columns df) of
        None \<Rightarrow> PyInt 0
      | Some i \<Rightarrow> NpInt (int (length (filter (\<lambda>r. cell_at r i = Text v) (df_rows df)))))"

fun py_sub :: "int \<Rightarrow> pynum \<Rightarrow> pynum" where
  "py_sub a (PyInt b) = PyInt (a - b)"
| "py_sub a (NpInt b) = NpInt (a - b)"

record workforce =
  male_pct :: pyfloat
  female_pct :: pyfloat
  uae_pct :: pyfloat
  expats_pct :: pyfloat

definition workforce_overview :: "dataframe \<Rightarrow> error + workforce" where
  "workforce_overview df =
     (let total_employees = int (length (df_rows df));
          male_count = count_eq df ''Emp_Gender'' ''M'';
          female_count = count_eq df ''Emp_Gender'' ''F'';
          uae_nationals = count_eq df ''Emp_Nationality'' ''AE''
      in case share_pct male_count total_employees of
           Inl e \<Rightarrow> Inl e
         | Inr m \<Rightarrow>
         (case share_pct female_count total_employees of
           Inl e \<Rightarrow> Inl e
         | Inr f \<Rightarrow>
         (case share_pct uae_nationals total_employees of
           Inl e \<Rightarrow> Inl e
         | Inr u \<Rightarrow>
         (case share_pct (py_sub total_employees uae_nationals) total_employees of
           Inl e \<Rightarrow> Inl e
         | Inr x \<Rightarrow>
             Inr \<lparr>male_pct = m, female_pct = f, uae_pct = u, expats_pct = x\<rparr>))))"

subsection \<open>Session states the program can reach\<close>

text \<open>
  A session starts in \<open>initial_state\<close>. A script run executes the start-up block; the
  reload button calls \<^verbatim>\<open>auto_load_csv_files\<close> (its state is kept whether it returns
  or raises); an upload runs the upload loop. \<open>reachable\<close> takes the upload step only
  when the loop completes: a run whose upload raises half-way is left out here.
\<close>

inductive reachable :: "session_state \<Rightarrow> bool" where
  init: "reachable initial_state"
| startup: "reachable s \<Longrightarrow> reachable (startup_auto_load csv_dir s)"
| reload: "reachable s \<Longrightarrow> reachable (snd (auto_load_csv_files csv_dir s))"
| upload: "reachable s \<Longrightarrow> upload_files fs s = (Inr (), s') \<Longrightarrow> reachable s'"

subsection \<open>Example inputs\<close>

text \<open>A table with one column and no row, a file holding it, and the session after
  a reload that found only this file.\<close>

definition example_table :: dataframe where
  "example_table = \<lparr>df_columns = [''App_Applicants''], df_rows = []\<rparr>"

definition example_file :: csv_file where
  "example_file = \<lparr>name = ''CHEDS-LT-01_applicants.csv'', read_csv = Inr example_table\<rparr>"

definition loaded_once :: session_state where
  "loaded_once = snd (auto_load_csv_files (Some [example_file]) initial_state)"

text \<open>Tables of given dimensions: \<open>r\<close> rows of \<open>c\<close> missing cells under \<open>c\<close> columns.\<close>

definition blank_table :: "nat \<Rightarrow> nat \<Rightarrow> dataframe" where
  "blank_table r c =
     \<lparr>df_columns = map (\<lambda>i. replicate (Suc i) (CHR ''c'')) [0..<c],
      df_rows = replicate r (replicate c Missing)\<rparr>"

text \<open>The Registry after loading the two files of the overview scenario.\<close>

definition two_products :: registry where
  "two_products =
     datasets (snd (auto_load_csv_files
       (Some [\<lparr>name = ''CHEDS-LT-01_x.csv'', read_csv = Inr (blank_table 10 3)\<rparr>,
              \<lparr>name = ''CHEDS-HR-21_y.csv'', read_csv = Inr (blank_table 5 4)\<rparr>])
       initial_state))"

text \<open>A Registry with two of the four HR products, the one finance product and one
  learning product.\<close>

definition example_registry :: registry where
  "example_registry =
     [(''CHEDS-HR-21'', entry (blank_table 5 4) ''CHEDS-HR-21_y.csv''),
      (''CHEDS-HR-23'', entry (blank_table 2 6) ''CHEDS-HR-23_z.csv''),
      (''CHEDS-FIN-25'', entry (blank_table 3 2) ''CHEDS-FIN-25_f.csv''),
      (''CHEDS-LT-01'', entry (blank_table 10 3) ''CHEDS-LT-01_x.csv'')]"

text \<open>A Registry with one of the seven research products.\<close>

definition one_research_product :: registry where
  "one_research_product =
     [(''CHEDS-RES-26'', entry (blank_table 1 1) ''CHEDS-RES-26_grants.csv'')]"

text \<open>A loaded session and an upload of two files, one for a product already loaded.\<close>

definition prior_session :: session_state where
  "prior_session =
     \<lparr>data_loaded = True, datasets = example_registry, auto_load_attempted = True\<rparr>"

definition upload_batch :: "csv_file list" where
  "upload_batch =
     [\<lparr>name = ''CHEDS-LT-01_new.csv'', read_csv = Inr (blank_table 2 3)\<rparr>,
      \<lparr>name = ''CHEDS-RES-26_grants.csv'', read_csv = Inr (blank_table 1 1)\<rparr>]"

subsection \<open>Product ids\<close>

lemma str_split_not_Nil: "str_split c s \<noteq> []"
  by (induction s) (auto split: list.splits)

lemma hd_str_split: "hd (str_split c s) = takeWhile (\<lambda>x. x \<noteq> c) s"
proof (induction s)
  case Nil
  show ?case by simp
next
  case (Cons x xs)
  show ?case
  proof (cases "str_split c xs")
    case Nil
    with str_split_not_Nil show ?thesis by blast
  next
    case (Cons w ws)
    with Cons.IH show ?thesis by auto
  qed
qed

lemma path_product_id_takeWhile:
  "path_product_id nm = takeWhile (\<lambda>x. x \<noteq> CHR ''_'') (stem nm)"
  by (simp add: path_product_id_def hd_str_split)

lemma path_product_id_no_underscore:
  "CHR ''_'' \<notin> set (stem nm) \<Longrightarrow> path_product_id nm = stem nm"
  by (auto simp: path_product_id_takeWhile)

lemma stem_prefix: "\<exists>n. stem nm = take n nm"
  unfolding stem_def Let_def by (metis take_all order_refl)

text \<open>
  With an underscore in the stem the two derivations agree: the first underscore of the
  name is the first underscore of the stem.
\<close>

lemma upload_product_id_agrees:
  assumes "CHR ''_'' \<in> set (stem nm)"
  shows "upload_product_id nm = path_product_id nm"
proof -
  obtain n where n: "stem nm = take n nm" using stem_prefix by blast
  have "takeWhile (\<lambda>x. x \<noteq> CHR ''_'') (take n nm @ drop n nm)
        = takeWhile (\<lambda>x. x \<noteq> CHR ''_'') (take n nm)"
    using assms n by (intro takeWhile_append1[of "CHR ''_''"]) auto
  then show ?thesis
    by (simp add: upload_product_id_def path_product_id_def hd_str_split n)
qed

lemma product_id_example:
  "path_product_id ''CHEDS-LT-01_applicants.csv'' = ''CHEDS-LT-01''"
  "upload_product_id ''CHEDS-LT-01_applicants.csv'' = ''CHEDS-LT-01''"
  by (simp_all add: path_product_id_def upload_product_id_def stem_def)

text \<open>
  Claim C5 (the Registry key is the token before the first underscore of the filename
  stem on both loading paths, the whole stem when it has no underscore). The directory
  path does so (\<open>path_product_id_takeWhile\<close>, \<open>path_product_id_no_underscore\<close>).
  The upload path splits \<^verbatim>\<open>file.name\<close>, not the stem: a file named
  \<^verbatim>\<open>CHEDS-LT-01.csv\<close> is stored under \<^verbatim>\<open>CHEDS-LT-01.csv\<close> when uploaded and under
  \<^verbatim>\<open>CHEDS-LT-01\<close> when found in the directory.
\<close>

theorem upload_product_id_keeps_extension:
  "upload_product_id ''CHEDS-LT-01.csv'' = ''CHEDS-LT-01.csv''
   \<and> path_product_id ''CHEDS-LT-01.csv'' = ''CHEDS-LT-01''
   \<and> stem ''CHEDS-LT-01.csv'' = ''CHEDS-LT-01''
   \<and> datasets (snd (upload_files [\<lparr>name = ''CHEDS-LT-01.csv'', read_csv = Inr df\<rparr>] initial_state))
       = [(''CHEDS-LT-01.csv'', entry df ''CHEDS-LT-01.csv'')]
   \<and> datasets (snd (auto_load_csv_files
         (Some [\<lparr>name = ''CHEDS-LT-01.csv'', read_csv = Inr df\<rparr>]) initial_state))
       = [(''CHEDS-LT-01'', entry df ''CHEDS-LT-01.csv'')]"
  by (simp add: auto_load_csv_files_def upload_files_def
      initial_state_def path_product_id_def upload_product_id_def stem_def)

subsection \<open>Parse failures in a batch\<close>

lemma reload_loop_fails:
  "f \<in> set fs \<Longrightarrow> read_csv f = Inl e \<Longrightarrow> \<exists>e'. reload_loop fs ds = Inl e'"
  by (induction fs arbitrary: ds) (auto split: sum.splits)

lemma reload_loop_all_parse:
  "\<forall>f\<in>set fs. \<exists>df. read_csv f = Inr df \<Longrightarrow> reload_loop fs ds = Inr (startup_loop fs ds)"
  by (induction fs arbitrary: ds) (auto split: sum.splits)

text \<open>The start-up loop is the loop over the files that parse.\<close>

lemma startup_loop_skips:
  "startup_loop fs ds = startup_loop (filter (\<lambda>f. \<not> isl (read_csv f)) fs) ds"
  by (induction fs arbitrary: ds) (auto split: sum.splits)

lemma auto_load_csv_files_raise_keeps_state:
  "auto_load_csv_files csv_dir s = (Inl e, s') \<Longrightarrow> s' = s"
  by (auto simp: auto_load_csv_files_def split: option.splits if_splits sum.splits)

text \<open>
  Claim C1 (in every batch load a parse failure aborts only that file's load, and the
  remaining files are still attempted). Three files, the second malformed: the start-up
  block loads the first and the third; \<^verbatim>\<open>auto_load_csv_files\<close> raises and stores
  nothing; the upload loop raises after storing the first, never reads the third, and
  does not set \<^verbatim>\<open>data_loaded\<close>.
\<close>

theorem reload_and_upload_abort_on_parse_failure:
  "auto_load_csv_files
     (Some [\<lparr>name = ''CHEDS-LT-01_a.csv'', read_csv = Inr df1\<rparr>,
            \<lparr>name = ''CHEDS-LT-02_b.csv'', read_csv = Inl ParseError\<rparr>,
            \<lparr>name = ''CHEDS-HR-21_c.csv'', read_csv = Inr df3\<rparr>]) initial_state
     = (Inl ParseError, initial_state)
   \<and> upload_files
        [\<lparr>name = ''CHEDS-LT-01_a.csv'', read_csv = Inr df1\<rparr>,
         \<lparr>name = ''CHEDS-LT-02_b.csv'', read_csv = Inl ParseError\<rparr>,
         \<lparr>name = ''CHEDS-HR-21_c.csv'', read_csv = Inr df3\<rparr>] initial_state
     = (Inl ParseError,
        initial_state\<lparr>datasets := [(''CHEDS-LT-01'', entry df1 ''CHEDS-LT-01_a.csv'')]\<rparr>)
   \<and> startup_auto_load
        (Some [\<lparr>name = ''CHEDS-LT-01_a.csv'', read_csv = Inr df1\<rparr>,
               \<lparr>name = ''CHEDS-LT-02_b.csv'', read_csv = Inl ParseError\<rparr>,
               \<lparr>name = ''CHEDS-HR-21_c.csv'', read_csv = Inr df3\<rparr>]) initial_state
     = \<lparr>data_loaded = True,
        datasets = [(''CHEDS-LT-01'', entry df1 ''CHEDS-LT-01_a.csv''),
                    (''CHEDS-HR-21'', entry df3 ''CHEDS-HR-21_c.csv'')],
        auto_load_attempted = True\<rparr>"
  by (simp add: auto_load_csv_files_def upload_files_def startup_auto_load_def
      initial_state_def path_product_id_def upload_product_id_def stem_def)

subsection \<open>Rounding to a double\<close>

text \<open>
  \<open>floor_log2\<close> is the binary exponent, and rounding is monotone on the non-negative
  numbers: of two binades the lower one rounds to at most the power of two that starts
  the upper one.
\<close>

lemma bitlen_pos: "0 < n \<Longrightarrow> 1 \<le> bitlen n"
  using bitlen_eq_zero_iff[of n] bitlen_nonneg[of n] by linarith

lemma floor_log2_bounds:
  assumes "0 < x"
  shows "2 powi (floor_log2 x) \<le> x \<and> x < 2 powi (floor_log2 x + 1)"
proof (cases "1 \<le> x")
  case True
  define n where "n = \<lfloor>x\<rfloor>"
  define b where "b = bitlen n"
  have n: "1 \<le> n" using True by (simp add: n_def le_floor_iff)
  then have b: "1 \<le> b" unfolding b_def by (intro bitlen_pos) simp
  from bitlen_bounds[of n] n have lo: "2 ^ nat (b - 1) \<le> n" and hi: "n < 2 ^ nat b"
    by (simp_all add: b_def)
  from hi have hi1: "n + 1 \<le> 2 ^ nat b" by simp
  have fl: "floor_log2 x = b - 1" using True by (simp add: floor_log2_def n_def b_def)
  have "(2::rat) powi (b - 1) = 2 ^ nat (b - 1)" using b by (simp add: power_int_nonneg_exp)
  also have "\<dots> = of_int (2 ^ nat (b - 1))" by simp
  also have "\<dots> \<le> of_int n" using lo by (simp only: of_int_le_iff)
  also have "\<dots> \<le> x" by (simp add: n_def)
  finally have A: "2 powi (b - 1) \<le> x" .
  have "x < of_int (n + 1)" unfolding n_def by linarith
  also have "\<dots> \<le> of_int (2 ^ nat b)" using hi1 by (simp only: of_int_le_iff)
  also have "\<dots> = (2::rat) ^ nat b" by simp
  also have "\<dots> = 2 powi b" using b by (simp add: power_int_nonneg_exp)
  finally have B: "x < 2 powi b" .
  from A B show ?thesis by (simp add: fl)
next
  case False
  define y where "y = 1 / x"
  define n where "n = \<lceil>y\<rceil> - 1"
  define b where "b = bitlen n"
  have x1: "x < 1" using False by simp
  have y1: "1 < y" using assms x1 by (simp add: y_def)
  have n: "1 \<le> n" using y1 unfolding n_def by linarith
  then have b: "1 \<le> b" unfolding b_def by (intro bitlen_pos) simp
  from bitlen_bounds[of n] n have lo: "2 ^ nat (b - 1) \<le> n" and hi: "n < 2 ^ nat b"
    by (simp_all add: b_def)
  from hi have hi1: "n + 1 \<le> 2 ^ nat b" by simp
  have fl: "floor_log2 x = - b" using False by (simp add: floor_log2_def n_def b_def y_def)
  have xy: "x = 1 / y" using assms by (simp add: y_def)
  have "y \<le> of_int (n + 1)" unfolding n_def by simp
  also have "\<dots> \<le> of_int (2 ^ nat b)" using hi1 by (simp only: of_int_le_iff)
  also have "\<dots> = (2::rat) ^ nat b" by simp
  finally have yle: "y \<le> 2 ^ nat b" .
  have "(2::rat) ^ nat (b - 1) = of_int (2 ^ nat (b - 1))" by simp
  also have "\<dots> \<le> of_int n" using lo by (simp only: of_int_le_iff)
  also have "\<dots> < y" unfolding n_def by linarith
  finally have ylt: "2 ^ nat (b - 1) < y" .
  have p1: "(2::rat) powi (- b) = 1 / 2 ^ nat b"
    using b by (simp add: power_int_minus_divide power_int_nonneg_exp)
  have p2: "(2::rat) powi (- b + 1) = 1 / 2 ^ nat (b - 1)"
  proof -
    have "- b + 1 = - (b - 1)" by simp
    then show ?thesis using b by (simp only: power_int_minus_divide) (simp add: power_int_nonneg_exp)
  qed
  have A: "2 powi (- b) \<le> x"
    unfolding p1 xy using yle y1 by (simp add: frac_le)
  have B: "x < 2 powi (- b + 1)"
    unfolding p2 xy using ylt by (simp add: frac_less2)
  from A B show ?thesis by (simp add: fl)
qed

lemma floor_log2_mono:
  assumes "0 < x" "x \<le> y"
  shows "floor_log2 x \<le> floor_log2 y"
proof (rule ccontr)
  assume "\<not> floor_log2 x \<le> floor_log2 y"
  then have "floor_log2 y + 1 \<le> floor_log2 x" by simp
  then have "(2::rat) powi (floor_log2 y + 1) \<le> 2 powi (floor_log2 x)"
    by (intro power_int_increasing) simp_all
  also have "\<dots> \<le> x" using floor_log2_bounds[OF assms(1)] by simp
  also have "\<dots> \<le> y" by (rule assms(2))
  finally show False using floor_log2_bounds[of y] assms by simp
qed

lemma floor_log2_less:
  assumes "0 < x" "x < 2 powi k"
  shows "floor_log2 x < k"
proof (rule ccontr)
  assume "\<not> floor_log2 x < k"
  then have "(2::rat) powi k \<le> 2 powi (floor_log2 x)"
    by (intro power_int_increasing) simp_all
  also have "\<dots> \<le> x" using floor_log2_bounds[OF assms(1)] by simp
  finally show False using assms(2) by simp
qed

lemma round_half_even_bounds:
  "\<lfloor>m\<rfloor> \<le> round_half_even m \<and> round_half_even m \<le> \<lfloor>m\<rfloor> + 1"
  by (simp add: round_half_even_def Let_def)

lemma round_half_even_of_int: "round_half_even (of_int k) = k"
  by (simp add: round_half_even_def)

lemma round_half_even_mono:
  assumes "m \<le> m'"
  shows "round_half_even m \<le> round_half_even m'"
proof (cases "\<lfloor>m\<rfloor> < \<lfloor>m'\<rfloor>")
  case True
  have "round_half_even m \<le> \<lfloor>m\<rfloor> + 1" using round_half_even_bounds[of m] by simp
  also have "\<dots> \<le> \<lfloor>m'\<rfloor>" using True by simp
  also have "\<dots> \<le> round_half_even m'" using round_half_even_bounds[of m'] by simp
  finally show ?thesis .
next
  case False
  with floor_mono[OF assms] have eq: "\<lfloor>m\<rfloor> = \<lfloor>m'\<rfloor>" by simp
  have "m - of_int \<lfloor>m'\<rfloor> \<le> m' - of_int \<lfloor>m'\<rfloor>" using assms by simp
  then show ?thesis
    by (auto simp: round_half_even_def Let_def eq)
qed

lemma ulp_pos: "0 < ulp a"
  by (simp add: ulp_def)

lemma ulp_times: "2 ^ 52 * ulp a = 2 powi (max (floor_log2 a) (- 1022))"
proof -
  have "(2::rat) powi (52 + (max (floor_log2 a) (- 1022) - 52)) = 2 powi 52 * ulp a"
    unfolding ulp_def by (rule power_int_add) simp
  then show ?thesis by simp
qed

lemma rounded_upper:
  assumes "0 < a"
  shows "of_int (round_half_even (a / ulp a)) * ulp a \<le> 2 * 2 powi (max (floor_log2 a) (- 1022))"
proof -
  let ?e = "max (floor_log2 a) (- 1022)"
  have "a < 2 powi (floor_log2 a + 1)" using floor_log2_bounds[OF assms] by simp
  also have "\<dots> \<le> 2 powi (?e + 1)" by (intro power_int_increasing) simp_all
  also have "\<dots> = 2 powi ?e * 2" by (rule power_int_add_1) simp
  also have "\<dots> = 2 ^ 53 * ulp a" using ulp_times[of a] by simp
  finally have "a / ulp a < 2 ^ 53" using ulp_pos[of a] by (simp add: pos_divide_less_eq)
  then have "a / ulp a < of_int (2 ^ 53)" by simp
  then have "\<lfloor>a / ulp a\<rfloor> < 2 ^ 53" by (simp only: floor_less_iff)
  with round_half_even_bounds[of "a / ulp a"] have "round_half_even (a / ulp a) \<le> 2 ^ 53"
    by linarith
  then have "(of_int (round_half_even (a / ulp a)) :: rat) \<le> of_int (2 ^ 53)"
    by (simp only: of_int_le_iff)
  then have "of_int (round_half_even (a / ulp a)) * ulp a \<le> of_int (2 ^ 53) * ulp a"
    using ulp_pos[of a] by (simp only: mult_le_cancel_right_pos)
  also have "\<dots> = 2 * (2 ^ 52 * ulp a)" by simp
  finally show ?thesis unfolding ulp_times .
qed

lemma rounded_lower:
  assumes "0 < a" "- 1022 \<le> floor_log2 a"
  shows "2 powi (floor_log2 a) \<le> of_int (round_half_even (a / ulp a)) * ulp a"
proof -
  have e: "max (floor_log2 a) (- 1022) = floor_log2 a" using assms(2) by simp
  have "2 ^ 52 * ulp a = 2 powi (floor_log2 a)" using ulp_times[of a] by (simp add: e)
  also have "\<dots> \<le> a" using floor_log2_bounds[OF assms(1)] by simp
  finally have "2 ^ 52 \<le> a / ulp a" using ulp_pos[of a] by (simp add: pos_le_divide_eq)
  then have "of_int (2 ^ 52) \<le> a / ulp a" by simp
  then have "2 ^ 52 \<le> \<lfloor>a / ulp a\<rfloor>" by (simp only: le_floor_iff)
  with round_half_even_bounds[of "a / ulp a"] have "2 ^ 52 \<le> round_half_even (a / ulp a)"
    by linarith
  then have "(of_int (2 ^ 52) :: rat) \<le> of_int (round_half_even (a / ulp a))"
    by (simp only: of_int_le_iff)
  then have "of_int (2 ^ 52) * ulp a \<le> of_int (round_half_even (a / ulp a)) * ulp a"
    using ulp_pos[of a] by (simp only: mult_le_cancel_right_pos)
  moreover have "of_int (2 ^ 52) * ulp a = 2 powi (floor_log2 a)"
    using ulp_times[of a] by (simp add: e)
  ultimately show ?thesis by simp
qed

lemma round_double_pos:
  "0 < x \<Longrightarrow> round_double x = of_int (round_half_even (x / ulp x)) * ulp x"
  by (simp add: round_double_def)

lemma round_double_nonneg:
  assumes "0 \<le> x"
  shows "0 \<le> round_double x"
proof (cases "x = 0")
  case True
  then show ?thesis by (simp add: round_double_def)
next
  case False
  with assms have x: "0 < x" by simp
  have "0 \<le> x / ulp x" using x ulp_pos[of x] by simp
  then have "0 \<le> \<lfloor>x / ulp x\<rfloor>" by simp
  with round_half_even_bounds[of "x / ulp x"] have "0 \<le> round_half_even (x / ulp x)"
    by linarith
  then show ?thesis using ulp_pos[of x] by (simp add: round_double_pos[OF x])
qed

lemma round_double_mono_pos:
  assumes "0 < x" "x \<le> y"
  shows "round_double x \<le> round_double y"
proof -
  let ?ex = "max (floor_log2 x) (- 1022)"
  let ?ey = "max (floor_log2 y) (- 1022)"
  from assms have y: "0 < y" by simp
  have fl: "floor_log2 x \<le> floor_log2 y" by (rule floor_log2_mono[OF assms])
  show ?thesis
  proof (cases "?ex = ?ey")
    case True
    then have u: "ulp x = ulp y" by (simp add: ulp_def)
    have "x / ulp y \<le> y / ulp y" using assms(2) ulp_pos[of y] by (simp add: divide_right_mono)
    then have "round_half_even (x / ulp y) \<le> round_half_even (y / ulp y)"
      by (rule round_half_even_mono)
    then have "(of_int (round_half_even (x / ulp y)) :: rat) \<le> of_int (round_half_even (y / ulp y))"
      by (simp only: of_int_le_iff)
    then have "of_int (round_half_even (x / ulp y)) * ulp y
               \<le> of_int (round_half_even (y / ulp y)) * ulp y"
      using ulp_pos[of y] by (simp only: mult_le_cancel_right_pos)
    then show ?thesis by (simp add: round_double_pos[OF assms(1)] round_double_pos[OF y] u)
  next
    case False
    with fl have lt: "?ex < ?ey" by linarith
    then have ey: "?ey = floor_log2 y" and ge: "- 1022 \<le> floor_log2 y" by linarith+
    have "round_double x \<le> 2 * 2 powi ?ex"
      using rounded_upper[OF assms(1)] by (simp add: round_double_pos[OF assms(1)])
    also have "\<dots> = 2 powi (?ex + 1)" by (subst power_int_add_1) simp_all
    also have "\<dots> \<le> 2 powi (floor_log2 y)"
    proof (rule power_int_increasing)
      show "?ex + 1 \<le> floor_log2 y" using lt ey by linarith
    qed simp
    also have "\<dots> \<le> round_double y"
      using rounded_lower[OF y ge] by (simp add: round_double_pos[OF y])
    finally show ?thesis .
  qed
qed

lemma round_double_mono:
  assumes "0 \<le> x" "x \<le> y"
  shows "round_double x \<le> round_double y"
proof (cases "x = 0")
  case True
  with assms round_double_nonneg[of y] show ?thesis by (simp add: round_double_def)
next
  case False
  with assms have "0 < x" by simp
  then show ?thesis using assms(2) by (rule round_double_mono_pos)
qed

lemma round_double_below_power:
  assumes "0 \<le> x" "x < 2 ^ n"
  shows "round_double x \<le> 2 ^ n"
proof (cases "x = 0")
  case True
  then show ?thesis by (simp add: round_double_def)
next
  case False
  with assms have x: "0 < x" by simp
  have "x < 2 powi (int n)" using assms(2) by simp
  from floor_log2_less[OF x this] have "max (floor_log2 x) (- 1022) + 1 \<le> int n" by simp
  then have "(2::rat) powi (max (floor_log2 x) (- 1022) + 1) \<le> 2 powi (int n)"
    by (intro power_int_increasing) simp_all
  moreover have "(2::rat) powi (max (floor_log2 x) (- 1022) + 1) = 2 * 2 powi (max (floor_log2 x) (- 1022))"
    by (subst power_int_add_1) simp_all
  ultimately show ?thesis
    using rounded_upper[OF x] by (simp add: round_double_pos[OF x])
qed

lemma round_double_values:
  "round_double 0 = 0"
  "round_double 1 = 1"
  "round_double 2 = 2"
  "round_double 5 = 5"
  "round_double 50 = 50"
  "round_double 100 = 100"
  "round_double (1 / 2) = 1 / 2"
  by code_simp+

text \<open>
  One seventh is not a double: the quotient and the product by 100 are both rounded, and
  the result is the double that Python prints as \<^verbatim>\<open>14.285714285714285\<close>.
\<close>

lemma round_double_one_seventh:
  "round_double (1 / 7) = 5146971002709138 / 2 ^ 55"
  "round_double (round_double (1 / 7) * 100) = 2010535547933257 / 140737488355328"
  "round_double (64337137533864225 / 4503599627370496) = 2010535547933257 / 140737488355328"
  by code_simp+

lemma float_of_finite:
  "- (2 ^ 1024) < r \<Longrightarrow> r < 2 ^ 1024 \<Longrightarrow> float_of r = Finite r"
  by (simp add: float_of_def)

subsection \<open>Percentages and division by zero\<close>

text \<open>A quotient of non-negative integers below \<open>2^63\<close> does not overflow.\<close>

lemma py_truediv_in_range:
  assumes "0 \<le> a" "0 < b" "a < b * 2 ^ 63"
  shows "py_truediv a b = Inr (round_double (of_int a / of_int b))"
proof -
  let ?x = "(of_int a :: rat) / of_int b"
  have b: "(0::rat) < of_int b" using assms(2) by simp
  have x0: "0 \<le> ?x" using assms(1) b by simp
  have "(of_int a :: rat) < of_int (b * 2 ^ 63)" using assms(3) by (simp only: of_int_less_iff)
  then have "?x < 2 ^ 63" using b by (simp add: pos_divide_less_eq mult.commute)
  from round_double_below_power[OF x0 this] have "round_double ?x \<le> 2 ^ 63" .
  also have "(2::rat) ^ 63 < 2 ^ 1024" by simp
  finally have hi: "round_double ?x < 2 ^ 1024" .
  have "- (2 ^ 1024) < (0::rat)" by simp
  also have "0 \<le> round_double ?x" using x0 by (rule round_double_nonneg)
  finally have lo: "- (2 ^ 1024) < round_double ?x" .
  show ?thesis using assms(2) by (simp add: py_truediv_def float_of_finite[OF lo hi])
qed

text \<open>
  The percentage of a part in a whole: both roundings stay between 0 and 100, and a part
  equal to the whole gives exactly 100.
\<close>

lemma ratio_times_100_part:
  assumes "0 \<le> l" "l \<le> t" "0 < t"
  shows "\<exists>c. ratio_times_100 l t = Inr (Finite c)
           \<and> c = round_double (round_double (of_int l / of_int t) * 100)
           \<and> 0 \<le> c \<and> c \<le> 100 \<and> (l = t \<longrightarrow> c = 100)"
proof -
  let ?x = "(of_int l :: rat) / of_int t"
  let ?q = "round_double ?x"
  let ?c = "round_double (?q * 100)"
  have t: "(0::rat) < of_int t" using assms(3) by simp
  have x0: "0 \<le> ?x" using assms(1) t by simp
  have "(of_int l :: rat) \<le> of_int t" using assms(2) by (simp only: of_int_le_iff)
  then have x1: "?x \<le> 1" using t by (simp add: pos_divide_le_eq)
  have q0: "0 \<le> ?q" using x0 by (rule round_double_nonneg)
  have q1: "?q \<le> 1" using round_double_mono[OF x0 x1] by (simp add: round_double_values)
  have "l < t * 2 ^ 63"
  proof -
    have "t * 1 \<le> t * 2 ^ 63" using assms(3) by (intro mult_left_mono) simp_all
    moreover have "t * 1 < t * 2 ^ 63" using assms(3) by simp
    ultimately show ?thesis using assms(2) by simp
  qed
  from py_truediv_in_range[OF assms(1) assms(3) this] have div: "py_truediv l t = Inr ?q" .
  have p0: "0 \<le> ?q * 100" using q0 by simp
  have p1: "?q * 100 \<le> 100" using q1 by simp
  have c0: "0 \<le> ?c" using p0 by (rule round_double_nonneg)
  have c1: "?c \<le> 100" using round_double_mono[OF p0 p1] by (simp add: round_double_values)
  have "- (2 ^ 1024) < (0::rat)" by simp
  with c0 have lo: "- (2 ^ 1024) < ?c" by linarith
  have "(100::rat) < 2 ^ 1024" by simp
  with c1 have hi: "?c < 2 ^ 1024" by linarith
  have r: "ratio_times_100 l t = Inr (Finite ?c)"
    by (simp add: ratio_times_100_def div float_of_finite[OF lo hi])
  have full: "l = t \<longrightarrow> ?c = 100"
  proof
    assume "l = t"
    then have "?x = 1" using t by simp
    then show "?c = 100" by (simp add: round_double_values)
  qed
  from r c0 c1 full show ?thesis by blast
qed

lemma ratio_times_100_examples:
  "ratio_times_100 5 10 = Inr (Finite 50)"
  "ratio_times_100 0 0 = Inl ZeroDivisionError"
  "ratio_times_100 5 0 = Inl ZeroDivisionError"
  by (simp_all add: ratio_times_100_def py_truediv_def float_of_def round_double_values)

text \<open>The guarded sites return 0 on a zero denominator and never divide by zero.\<close>

lemma acceptance_rate_contract:
  "acceptance_rate part 0 = Inr (Finite 0)"
  "acceptance_rate 5 10 = Inr (Finite 50)"
  "acceptance_rate part whole \<noteq> Inl ZeroDivisionError"
proof -
  show "acceptance_rate part 0 = Inr (Finite 0)" by (simp add: acceptance_rate_def)
  show "acceptance_rate 5 10 = Inr (Finite 50)"
    by (simp add: acceptance_rate_def ratio_times_100_examples)
  show "acceptance_rate part whole \<noteq> Inl ZeroDivisionError"
    by (auto simp: acceptance_rate_def ratio_times_100_def py_truediv_def
        split: sum.splits pyfloat.splits if_splits)
qed

lemma graduation_rate_contract:
  "graduation_rate part 0 = Inr (Finite 0)"
  "graduation_rate 5 10 = Inr (Finite 50)"
  "graduation_rate part whole \<noteq> Inl ZeroDivisionError"
proof -
  show "graduation_rate part 0 = Inr (Finite 0)" by (simp add: graduation_rate_def)
  show "graduation_rate 5 10 = Inr (Finite 50)"
    by (simp add: graduation_rate_def ratio_times_100_examples)
  show "graduation_rate part whole \<noteq> Inl ZeroDivisionError"
    by (auto simp: graduation_rate_def ratio_times_100_def py_truediv_def
        split: sum.splits pyfloat.splits if_splits)
qed

text \<open>With at least one row no workforce share raises.\<close>

lemma share_pct_count_eq:
  assumes "0 < n"
  shows "\<exists>v. share_pct (count_eq df c x) n = Inr v"
    and "\<exists>v. share_pct (py_sub n (count_eq df c x)) n = Inr v"
proof -
  from ratio_times_100_part[of 0 n] assms
  obtain z where z: "ratio_times_100 0 n = Inr (Finite z)" by auto
  from ratio_times_100_part[of n n] assms
  obtain w where w: "ratio_times_100 n n = Inr (Finite w)" by auto
  show "\<exists>v. share_pct (count_eq df c x) n = Inr v"
    by (cases "col_index c (df_columns df)") (simp_all add: count_eq_def z)
  show "\<exists>v. share_pct (py_sub n (count_eq df c x)) n = Inr v"
    by (cases "col_index c (df_columns df)") (simp_all add: count_eq_def w)
qed

lemma workforce_overview_raises_only_without_rows:
  assumes "workforce_overview df = Inl e"
  shows "df_rows df = []"
proof (rule ccontr)
  assume "df_rows df \<noteq> []"
  then have n: "0 < int (length (df_rows df))" by simp
  from share_pct_count_eq[OF n] obtain m f u x where
    "share_pct (count_eq df ''Emp_Gender'' ''M'') (int (length (df_rows df))) = Inr m"
    "share_pct (count_eq df ''Emp_Gender'' ''F'') (int (length (df_rows df))) = Inr f"
    "share_pct (count_eq df ''Emp_Nationality'' ''AE'') (int (length (df_rows df))) = Inr u"
    "share_pct (py_sub (int (length (df_rows df))) (count_eq df ''Emp_Nationality'' ''AE''))
       (int (length (df_rows df))) = Inr x"
    by metis
  then have "workforce_overview df
      = Inr \<lparr>male_pct = m, female_pct = f, uae_pct = u, expats_pct = x\<rparr>"
    by (simp add: workforce_overview_def Let_def)
  with assms show False by simp
qed

text \<open>
  Claim C4 (every percentage returns 0 when the whole is 0 and never raises a
  divide-by-zero fault, also on a zero-row dataset). The workforce shares of
  \<^verbatim>\<open>display_human_resources\<close> divide by \<^verbatim>\<open>len(df)\<close> without a guard: on a table with
  no row and no \<^verbatim>\<open>Emp_Gender\<close> column the first share raises
  \<^verbatim>\<open>ZeroDivisionError\<close>, and with the columns present every share is \<^verbatim>\<open>nan\<close>, not 0.
\<close>

theorem workforce_overview_zero_rows:
  "workforce_overview \<lparr>df_columns = [''Emp_ID''], df_rows = []\<rparr> = Inl ZeroDivisionError
   \<and> workforce_overview \<lparr>df_columns = [''Emp_Gender'', ''Emp_Nationality''], df_rows = []\<rparr>
       = Inr \<lparr>male_pct = NaN, female_pct = NaN, uae_pct = NaN, expats_pct = NaN\<rparr>"
  by (simp add: workforce_overview_def count_eq_def ratio_times_100_def py_truediv_def
      np_truediv_def)

subsection \<open>Overview metrics\<close>

text \<open>
  The values of a dict with distinct keys, summed in list order, are the sum over its
  key set.
\<close>

lemma sum_list_values_eq_sum_keys:
  fixes f :: "dataset \<Rightarrow> int"
  assumes "distinct (map fst ds)"
  shows "sum_list (map (\<lambda>kv. f (snd kv)) ds) = (\<Sum>k\<in>dom (map_of ds). f (the (map_of ds k)))"
  using assms
proof (induction ds)
  case Nil
  show ?case by simp
next
  case (Cons kv ds)
  obtain k v where kv: "kv = (k, v)" by (cases kv)
  from Cons.prems kv have notin: "k \<notin> dom (map_of ds)" and d: "distinct (map fst ds)"
    by (auto simp: dom_map_of_conv_image_fst)
  have fin: "finite (dom (map_of ds))" by (rule finite_dom_map_of)
  have dom: "dom (map_of (kv # ds)) = insert k (dom (map_of ds))"
    by (auto simp: kv)
  have rest: "(\<Sum>k'\<in>dom (map_of ds). f (the (map_of (kv # ds) k')))
              = (\<Sum>k'\<in>dom (map_of ds). f (the (map_of ds k')))"
  proof (rule sum.cong)
    fix k' assume "k' \<in> dom (map_of ds)"
    with notin have "k' \<noteq> k" by blast
    then show "f (the (map_of (kv # ds) k')) = f (the (map_of ds k'))"
      by (simp add: kv)
  qed simp
  have "(\<Sum>k'\<in>dom (map_of (kv # ds)). f (the (map_of (kv # ds) k')))
        = f (the (map_of (kv # ds) k)) + (\<Sum>k'\<in>dom (map_of ds). f (the (map_of (kv # ds) k')))"
    unfolding dom using notin fin by (rule_tac sum.insert) auto
  also have "\<dots> = f v + (\<Sum>k'\<in>dom (map_of ds). f (the (map_of ds k')))"
    unfolding rest by (simp add: kv)
  finally have step: "(\<Sum>k'\<in>dom (map_of (kv # ds)). f (the (map_of (kv # ds) k')))
        = f v + (\<Sum>k'\<in>dom (map_of ds). f (the (map_of ds k')))" .
  have "sum_list (map (\<lambda>kv. f (snd kv)) (kv # ds)) = f v + sum_list (map (\<lambda>kv. f (snd kv)) ds)"
    by (simp add: kv)
  also have "\<dots> = f v + (\<Sum>k'\<in>dom (map_of ds). f (the (map_of ds k')))"
    using Cons.IH[OF d] by simp
  also have "\<dots> = (\<Sum>k'\<in>dom (map_of (kv # ds)). f (the (map_of (kv # ds) k')))"
    by (rule step[symmetric])
  finally show ?case .
qed

lemma length_eq_card_dom:
  "distinct (map fst ds) \<Longrightarrow> length ds = card (dom (map_of ds))"
  by (metis distinct_card dom_map_of_conv_image_fst length_map set_map)

text \<open>
  Claim C2 (overview metrics). For a Registry, that is an association list with
  distinct keys: \<open>total_products\<close> is the number of keys, \<open>total_rows\<close> and
  \<open>total_columns\<close> are the sums of the cached row and column counts over the keys,
  and \<open>avg_records_per_product\<close> is the floor of their quotient, 0 for an empty
  Registry. A Registry holding exactly CHEDS-LT-01 (10 rows, 3 columns) and CHEDS-HR-21
  (5 rows, 4 columns) gives 2, 15, 7 and 7, and so does the Registry that a reload
  builds from two files of these names and dimensions.
\<close>

theorem overview_metrics_spec:
  "(distinct (map fst ds) \<longrightarrow>
      total_products (overview_metrics ds) = int (card (dom (map_of ds)))
    \<and> total_rows (overview_metrics ds) = (\<Sum>k\<in>dom (map_of ds). rows (the (map_of ds k)))
    \<and> total_columns (overview_metrics ds) = (\<Sum>k\<in>dom (map_of ds). columns (the (map_of ds k))))
   \<and> avg_records_per_product (overview_metrics ds)
       = (if 0 < total_products (overview_metrics ds)
          then \<lfloor>(of_int (total_rows (overview_metrics ds)) :: rat)
                 / of_int (total_products (overview_metrics ds))\<rfloor>
          else 0)
   \<and> (map_of ds ''CHEDS-LT-01'' = Some d1 \<and> rows d1 = 10 \<and> columns d1 = 3
      \<and> map_of ds ''CHEDS-HR-21'' = Some d2 \<and> rows d2 = 5 \<and> columns d2 = 4
      \<and> distinct (map fst ds) \<and> dom (map_of ds) = {''CHEDS-LT-01'', ''CHEDS-HR-21''} \<longrightarrow>
        overview_metrics ds
          = \<lparr>total_products = 2, total_rows = 15, total_columns = 7,
             avg_records_per_product = 7\<rparr>)
   \<and> (length (df_rows df1) = 10 \<and> length (df_columns df1) = 3
      \<and> length (df_rows df2) = 5 \<and> length (df_columns df2) = 4 \<longrightarrow>
        overview_metrics (datasets (snd (auto_load_csv_files
            (Some [\<lparr>name = ''CHEDS-LT-01_x.csv'', read_csv = Inr df1\<rparr>,
                   \<lparr>name = ''CHEDS-HR-21_y.csv'', read_csv = Inr df2\<rparr>]) s)))
          = \<lparr>total_products = 2, total_rows = 15, total_columns = 7,
             avg_records_per_product = 7\<rparr>)"
proof (intro conjI impI)
  assume d: "distinct (map fst ds)"
  show "total_products (overview_metrics ds) = int (card (dom (map_of ds)))"
    using length_eq_card_dom[OF d] by (simp add: overview_metrics_def)
  show "total_rows (overview_metrics ds) = (\<Sum>k\<in>dom (map_of ds). rows (the (map_of ds k)))"
    using sum_list_values_eq_sum_keys[OF d, of rows] by (simp add: overview_metrics_def)
  show "total_columns (overview_metrics ds) = (\<Sum>k\<in>dom (map_of ds). columns (the (map_of ds k)))"
    using sum_list_values_eq_sum_keys[OF d, of columns] by (simp add: overview_metrics_def)
next
  show "avg_records_per_product (overview_metrics ds)
       = (if 0 < total_products (overview_metrics ds)
          then \<lfloor>(of_int (total_rows (overview_metrics ds)) :: rat)
                 / of_int (total_products (overview_metrics ds))\<rfloor>
          else 0)"
    using floor_divide_of_int_eq[of "sum_list (map (\<lambda>kv. rows (snd kv)) ds)" "int (length ds)",
        where ?'a = rat]
    by (simp add: overview_metrics_def)
next
  assume a: "map_of ds ''CHEDS-LT-01'' = Some d1 \<and> rows d1 = 10 \<and> columns d1 = 3
      \<and> map_of ds ''CHEDS-HR-21'' = Some d2 \<and> rows d2 = 5 \<and> columns d2 = 4
      \<and> distinct (map fst ds) \<and> dom (map_of ds) = {''CHEDS-LT-01'', ''CHEDS-HR-21''}"
  then have d: "distinct (map fst ds)" by simp
  have n: "length ds = 2"
    using length_eq_card_dom[OF d] a by simp
  have r: "sum_list (map (\<lambda>kv. rows (snd kv)) ds) = 15"
    using sum_list_values_eq_sum_keys[OF d, of rows] a by simp
  have c: "sum_list (map (\<lambda>kv. columns (snd kv)) ds) = 7"
    using sum_list_values_eq_sum_keys[OF d, of columns] a by simp
  show "overview_metrics ds
          = \<lparr>total_products = 2, total_rows = 15, total_columns = 7,
             avg_records_per_product = 7\<rparr>"
    by (simp add: overview_metrics_def n r c)
next
  assume "length (df_rows df1) = 10 \<and> length (df_columns df1) = 3
      \<and> length (df_rows df2) = 5 \<and> length (df_columns df2) = 4"
  then show "overview_metrics (datasets (snd (auto_load_csv_files
            (Some [\<lparr>name = ''CHEDS-LT-01_x.csv'', read_csv = Inr df1\<rparr>,
                   \<lparr>name = ''CHEDS-HR-21_y.csv'', read_csv = Inr df2\<rparr>]) s)))
          = \<lparr>total_products = 2, total_rows = 15, total_columns = 7,
             avg_records_per_product = 7\<rparr>"
    by (simp add: auto_load_csv_files_def path_product_id_def stem_def overview_metrics_def
        entry_def)
qed

lemma two_products_eq:
  "two_products =
     [(''CHEDS-LT-01'', entry (blank_table 10 3) ''CHEDS-LT-01_x.csv''),
      (''CHEDS-HR-21'', entry (blank_table 5 4) ''CHEDS-HR-21_y.csv'')]"
  by (simp add: two_products_def auto_load_csv_files_def initial_state_def
      path_product_id_def stem_def)

text \<open>The scenario, through the loader: two files found by a reload in a fresh session.\<close>

theorem overview_metrics_spec_witness:
  "distinct (map fst two_products)
   \<and> dom (map_of two_products) = {''CHEDS-LT-01'', ''CHEDS-HR-21''}
   \<and> total_products (overview_metrics two_products) = int (card (dom (map_of two_products)))
   \<and> overview_metrics two_products
       = \<lparr>total_products = 2, total_rows = 15, total_columns = 7, avg_records_per_product = 7\<rparr>"
  using overview_metrics_spec[of two_products
      "entry (blank_table 10 3) ''CHEDS-LT-01_x.csv''"
      "entry (blank_table 5 4) ''CHEDS-HR-21_y.csv''"
      "blank_table 10 3" "blank_table 5 4" initial_state]
  by (simp add: two_products_eq entry_def blank_table_def insert_commute)

subsection \<open>Domain summaries\<close>

lemma loaded_products_present:
  "p \<in> set (loaded_products ds products) \<Longrightarrow> \<exists>d. map_of ds p = Some d"
  by (auto simp: loaded_products_def)

lemma loaded_products_in_registry:
  "p \<in> set (loaded_products ds products) \<Longrightarrow> (p, the (map_of ds p)) \<in> set ds"
  by (auto simp: loaded_products_def dest: map_of_SomeD)

lemma length_loaded_products_le:
  "length (loaded_products ds products) \<le> length products"
  by (simp add: loaded_products_def)

lemma set_loaded_products:
  "set (loaded_products ds products) = set products \<inter> dom (map_of ds)"
  by (auto simp: loaded_products_def)

lemma distinct_loaded_products:
  "distinct products \<Longrightarrow> distinct (loaded_products ds products)"
  by (simp add: loaded_products_def)

lemma sum_list_bounded:
  fixes f :: "'a \<Rightarrow> int"
  assumes "\<forall>x\<in>set xs. 0 \<le> f x \<and> f x < B"
  shows "0 \<le> sum_list (map f xs) \<and> (xs \<noteq> [] \<longrightarrow> sum_list (map f xs) < int (length xs) * B)"
  using assms
proof (induction xs)
  case Nil
  show ?case by simp
next
  case (Cons x xs)
  then have x: "0 \<le> f x" "f x < B" and rest: "\<forall>y\<in>set xs. 0 \<le> f y \<and> f y < B" by simp_all
  from Cons.IH[OF rest] have s0: "0 \<le> sum_list (map f xs)"
    and s1: "xs \<noteq> [] \<longrightarrow> sum_list (map f xs) < int (length xs) * B" by simp_all
  have "sum_list (map f xs) \<le> int (length xs) * B"
    using s1 by (cases "xs = []") simp_all
  with x s0 show ?case by (simp add: algebra_simps)
qed

text \<open>
  The summary in closed form, for a Registry whose cached column counts are lengths
  (non-negative and below \<open>2^63\<close>): neither division raises.
\<close>

lemma domain_summary_eq:
  assumes "\<forall>kv\<in>set ds. 0 \<le> columns (snd kv) \<and> columns (snd kv) < 2 ^ 63"
  shows "domain_summary ds (d, products) =
     Inr \<lparr>dr_domain = d,
          dr_products = int (length (loaded_products ds products)),
          dr_total_products = int (length products),
          dr_records = sum_list (map (\<lambda>p. rows (the (map_of ds p))) (loaded_products ds products)),
          dr_avg_columns =
            Finite (if loaded_products ds products = [] then 0
             else round_double
                    (of_int (sum_list (map (\<lambda>p. columns (the (map_of ds p)))
                                           (loaded_products ds products)))
                     / of_int (int (length (loaded_products ds products))))),
          dr_coverage_pct =
            Finite (if products = [] then 0
             else round_double
                    (round_double (of_int (int (length (loaded_products ds products)))
                                   / of_int (int (length products))) * 100))\<rparr>"
proof -
  let ?L = "loaded_products ds products"
  let ?S = "sum_list (map (\<lambda>p. columns (the (map_of ds p))) ?L)"
  have "\<forall>p\<in>set ?L. 0 \<le> columns (the (map_of ds p)) \<and> columns (the (map_of ds p)) < 2 ^ 63"
  proof
    fix p assume "p \<in> set ?L"
    from loaded_products_in_registry[OF this] assms
    show "0 \<le> columns (the (map_of ds p)) \<and> columns (the (map_of ds p)) < 2 ^ 63"
      by fastforce
  qed
  from sum_list_bounded[OF this] have s0: "0 \<le> ?S"
    and s1: "?L \<noteq> [] \<longrightarrow> ?S < int (length ?L) * 2 ^ 63" by simp_all
  have avg: "(if ?L \<noteq> []
              then (case py_truediv ?S (int (length ?L)) of
                      Inl e \<Rightarrow> Inl e
                    | Inr q \<Rightarrow> Inr (Finite q))
              else Inr (Finite 0))
             = Inr (Finite (if ?L = [] then 0
                            else round_double (of_int ?S / of_int (int (length ?L)))))"
  proof (cases "?L = []")
    case True
    then show ?thesis by simp
  next
    case False
    then have "py_truediv ?S (int (length ?L))
        = Inr (round_double (of_int ?S / of_int (int (length ?L))))"
      using s0 s1 by (intro py_truediv_in_range) simp_all
    with False show ?thesis by simp
  qed
  have cov: "(if products \<noteq> []
              then ratio_times_100 (int (length ?L)) (int (length products))
              else Inr (Finite 0))
             = Inr (Finite (if products = [] then 0
                            else round_double (round_double (of_int (int (length ?L))
                                      / of_int (int (length products))) * 100)))"
  proof (cases "products = []")
    case True
    then show ?thesis by simp
  next
    case False
    then have "0 < int (length products)" by simp
    from ratio_times_100_part[OF _ _ this, of "int (length ?L)"]
      length_loaded_products_le[of ds products]
    have "ratio_times_100 (int (length ?L)) (int (length products))
        = Inr (Finite (round_double (round_double (of_int (int (length ?L))
                                      / of_int (int (length products))) * 100)))"
      by auto
    with False show ?thesis by simp
  qed
  show ?thesis
    unfolding domain_summary_def Let_def snd_conv fst_conv avg cov by simp
qed

text \<open>
  Claim C3 (domain summary). For every domain entry \<open>(d, products)\<close>, so for each of
  the seven catalog domains, and every Registry whose cached column counts are lengths
  (non-negative, below \<open>2^63\<close>), the summary is computed without an exception; the
  loaded count is at most the total count; the coverage is the double that
  \<^verbatim>\<open>loaded / total * 100\<close> evaluates to, with both roundings, it lies between 0 and 100,
  is 0 when the total is 0 and is exactly 100 when all products of a non-empty domain
  are loaded; the average column count is the double nearest to the mean of the cached
  column counts over the loaded products, 0 when none is loaded. For a product list
  without repetition (lemma \<open>catalog_domains_distinct\<close> below) the loaded products are
  the set \<open>set products \<inter> dom (map_of ds)\<close>.
\<close>

theorem domain_summary_spec:
  assumes "\<forall>kv\<in>set ds. 0 \<le> columns (snd kv) \<and> columns (snd kv) < 2 ^ 63"
  shows "\<exists>r cov avg. domain_summary ds (d, products) = Inr r
     \<and> dr_products r = int (length (loaded_products ds products))
     \<and> dr_total_products r = int (length products)
     \<and> dr_products r \<le> dr_total_products r
     \<and> dr_coverage_pct r = Finite cov
     \<and> 0 \<le> cov \<and> cov \<le> 100
     \<and> cov = (if dr_total_products r = 0 then 0
               else round_double
                      (round_double (of_int (dr_products r) / of_int (dr_total_products r))
                       * 100))
     \<and> (dr_products r = dr_total_products r \<and> 0 < dr_total_products r \<longrightarrow> cov = 100)
     \<and> dr_avg_columns r = Finite avg
     \<and> avg = (if loaded_products ds products = [] then 0
               else round_double
                      (of_int (sum_list (map (\<lambda>p. columns (the (map_of ds p)))
                                             (loaded_products ds products)))
                       / of_int (dr_products r)))
     \<and> (distinct products \<longrightarrow>
          dr_products r = int (card (set products \<inter> dom (map_of ds)))
        \<and> avg = (if set products \<inter> dom (map_of ds) = {} then 0
                  else round_double
                         (of_int (\<Sum>p\<in>set products \<inter> dom (map_of ds).
                                    columns (the (map_of ds p)))
                          / of_int (int (card (set products \<inter> dom (map_of ds)))))))"
proof -
  let ?L = "loaded_products ds products"
  let ?S = "set products \<inter> dom (map_of ds)"
  let ?l = "int (length ?L)"
  let ?t = "int (length products)"
  let ?sum = "sum_list (map (\<lambda>p. columns (the (map_of ds p))) ?L)"
  let ?cov = "if products = [] then 0
              else round_double (round_double (of_int ?l / of_int ?t) * 100)"
  let ?avg = "if ?L = [] then 0 else round_double (of_int ?sum / of_int ?l)"
  let ?r = "\<lparr>dr_domain = d, dr_products = ?l, dr_total_products = ?t,
            dr_records = sum_list (map (\<lambda>p. rows (the (map_of ds p))) ?L),
            dr_avg_columns = Finite ?avg, dr_coverage_pct = Finite ?cov\<rparr>"
  have le: "?l \<le> ?t" using length_loaded_products_le[of ds products] by simp
  have cov: "0 \<le> ?cov \<and> ?cov \<le> 100 \<and> (?l = ?t \<and> 0 < ?t \<longrightarrow> ?cov = 100)"
  proof (cases "products = []")
    case True
    then show ?thesis by simp
  next
    case False
    then have "0 < ?t" by simp
    from ratio_times_100_part[OF _ le this] False show ?thesis by auto
  qed
  have set_part: "distinct products \<longrightarrow>
          ?l = int (card ?S)
        \<and> ?avg = (if ?S = {} then 0
                   else round_double (of_int (\<Sum>p\<in>?S. columns (the (map_of ds p)))
                                      / of_int (int (card ?S))))"
  proof
    assume dp: "distinct products"
    have dl: "distinct ?L" using dp by (rule distinct_loaded_products)
    have card: "card ?S = length ?L"
      using distinct_card[OF dl] by (simp add: set_loaded_products)
    have sum: "?sum = (\<Sum>p\<in>?S. columns (the (map_of ds p)))"
      using sum_list_distinct_conv_sum_set[OF dl, of "\<lambda>p. columns (the (map_of ds p))"]
      by (simp add: set_loaded_products)
    have empty: "(?S = {}) = (?L = [])"
      using set_loaded_products[of ds products] by (metis set_empty)
    show "?l = int (card ?S)
        \<and> ?avg = (if ?S = {} then 0
                   else round_double (of_int (\<Sum>p\<in>?S. columns (the (map_of ds p)))
                                      / of_int (int (card ?S))))"
      by (simp add: card sum empty)
  qed
  have eq: "domain_summary ds (d, products) = Inr ?r" by (rule domain_summary_eq[OF assms])
  have c2: "?cov = (if dr_total_products ?r = 0 then 0
               else round_double
                      (round_double (of_int (dr_products ?r) / of_int (dr_total_products ?r))
                       * 100))" by simp
  have a2: "?avg = (if ?L = [] then 0
               else round_double (of_int ?sum / of_int (dr_products ?r)))" by simp
  have "domain_summary ds (d, products) = Inr ?r
     \<and> dr_products ?r = ?l \<and> dr_total_products ?r = ?t
     \<and> dr_products ?r \<le> dr_total_products ?r
     \<and> dr_coverage_pct ?r = Finite ?cov
     \<and> 0 \<le> ?cov \<and> ?cov \<le> 100
     \<and> ?cov = (if dr_total_products ?r = 0 then 0
               else round_double
                      (round_double (of_int (dr_products ?r) / of_int (dr_total_products ?r))
                       * 100))
     \<and> (dr_products ?r = dr_total_products ?r \<and> 0 < dr_total_products ?r \<longrightarrow> ?cov = 100)
     \<and> dr_avg_columns ?r = Finite ?avg
     \<and> ?avg = (if ?L = [] then 0 else round_double (of_int ?sum / of_int (dr_products ?r)))
     \<and> (distinct products \<longrightarrow>
          dr_products ?r = int (card ?S)
        \<and> ?avg = (if ?S = {} then 0
                  else round_double (of_int (\<Sum>p\<in>?S. columns (the (map_of ds p)))
                          / of_int (int (card ?S)))))"
    using eq le cov set_part c2 a2 by simp
  then show ?thesis by blast
qed

lemma catalog_domains_distinct:
  "(d, products) \<in> set PRODUCT_CATEGORIES \<Longrightarrow> distinct products"
  by (auto simp: PRODUCT_CATEGORIES_def)

lemma domain_data_loop_never_raises:
  assumes "\<forall>kv\<in>set ds. 0 \<le> columns (snd kv) \<and> columns (snd kv) < 2 ^ 63"
  shows "\<exists>rs. domain_data_loop ds cat = Inr rs \<and> length rs = length cat"
proof (induction cat)
  case Nil
  show ?case by simp
next
  case (Cons dp cat)
  obtain d ps where dp: "dp = (d, ps)" by (cases dp)
  from Cons.IH obtain rs where "domain_data_loop ds cat = Inr rs" "length rs = length cat" by blast
  then show ?case by (simp add: dp domain_summary_eq[OF assms])
qed

lemma length_PRODUCT_CATEGORIES: "length PRODUCT_CATEGORIES = 7"
  by (simp add: PRODUCT_CATEGORIES_def)

lemma domain_data_never_raises:
  assumes "\<forall>kv\<in>set ds. 0 \<le> columns (snd kv) \<and> columns (snd kv) < 2 ^ 63"
  shows "\<exists>rs. domain_data ds = Inr rs \<and> length rs = 7"
  using domain_data_loop_never_raises[OF assms, of PRODUCT_CATEGORIES]
  unfolding domain_data_def length_PRODUCT_CATEGORIES .

lemma example_registry_columns:
  "\<forall>kv\<in>set example_registry. 0 \<le> columns (snd kv) \<and> columns (snd kv) < 2 ^ 63"
  by (simp add: example_registry_def entry_def blank_table_def)

lemma one_research_product_columns:
  "\<forall>kv\<in>set one_research_product. 0 \<le> columns (snd kv) \<and> columns (snd kv) < 2 ^ 63"
  by (simp add: one_research_product_def entry_def blank_table_def)

text \<open>
  The HR domain half loaded, the finance domain fully loaded, a domain without
  products, and one of the seven research products loaded: 100/7 is not a double, and
  the coverage is the double \<^verbatim>\<open>14.285714285714285\<close>.
\<close>

theorem domain_summary_spec_witness:
  "list_all (\<lambda>kv. 0 \<le> columns (snd kv) \<and> columns (snd kv) < 2 ^ 63) example_registry
   \<and> list_all (\<lambda>kv. 0 \<le> columns (snd kv) \<and> columns (snd kv) < 2 ^ 63) one_research_product
   \<and> distinct [''CHEDS-HR-21'', ''CHEDS-HR-22'', ''CHEDS-HR-23'', ''CHEDS-HR-24'']
   \<and> domain_summary example_registry
        (''Human Resource Management'',
         [''CHEDS-HR-21'', ''CHEDS-HR-22'', ''CHEDS-HR-23'', ''CHEDS-HR-24''])
       = Inr \<lparr>dr_domain = ''Human Resource Management'', dr_products = 2,
              dr_total_products = 4, dr_records = 7, dr_avg_columns = Finite 5,
              dr_coverage_pct = Finite 50\<rparr>
   \<and> domain_summary example_registry (''Financial Management'', [''CHEDS-FIN-25''])
       = Inr \<lparr>dr_domain = ''Financial Management'', dr_products = 1,
              dr_total_products = 1, dr_records = 3, dr_avg_columns = Finite 2,
              dr_coverage_pct = Finite 100\<rparr>
   \<and> domain_summary example_registry (''No products'', [])
       = Inr \<lparr>dr_domain = ''No products'', dr_products = 0,
              dr_total_products = 0, dr_records = 0, dr_avg_columns = Finite 0,
              dr_coverage_pct = Finite 0\<rparr>
   \<and> domain_summary one_research_product
        (''Research'',
         [''CHEDS-RES-26'', ''CHEDS-RES-27'', ''CHEDS-RES-28'', ''CHEDS-RES-29'',
          ''CHEDS-RES-30'', ''CHEDS-RES-31'', ''CHEDS-RES-32''])
       = Inr \<lparr>dr_domain = ''Research'', dr_products = 1,
              dr_total_products = 7, dr_records = 1, dr_avg_columns = Finite 1,
              dr_coverage_pct = Finite (2010535547933257 / 140737488355328)\<rparr>"
proof -
  note hr = domain_summary_spec[OF example_registry_columns, of "''Human Resource Management''"
      "[''CHEDS-HR-21'', ''CHEDS-HR-22'', ''CHEDS-HR-23'', ''CHEDS-HR-24'']"]
  note fin = domain_summary_spec[OF example_registry_columns, of "''Financial Management''"
      "[''CHEDS-FIN-25'']"]
  note none = domain_summary_spec[OF example_registry_columns, of "''No products''" "[]"]
  note res = domain_summary_spec[OF one_research_product_columns, of "''Research''"
      "[''CHEDS-RES-26'', ''CHEDS-RES-27'', ''CHEDS-RES-28'', ''CHEDS-RES-29'',
        ''CHEDS-RES-30'', ''CHEDS-RES-31'', ''CHEDS-RES-32'']"]
  have lp: "loaded_products example_registry
        [''CHEDS-HR-21'', ''CHEDS-HR-22'', ''CHEDS-HR-23'', ''CHEDS-HR-24'']
      = [''CHEDS-HR-21'', ''CHEDS-HR-23'']"
    "loaded_products example_registry [''CHEDS-FIN-25''] = [''CHEDS-FIN-25'']"
    "loaded_products example_registry [] = []"
    "loaded_products one_research_product
        [''CHEDS-RES-26'', ''CHEDS-RES-27'', ''CHEDS-RES-28'', ''CHEDS-RES-29'',
         ''CHEDS-RES-30'', ''CHEDS-RES-31'', ''CHEDS-RES-32'']
      = [''CHEDS-RES-26'']"
    by (simp_all add: loaded_products_def example_registry_def one_research_product_def)
  have a: "domain_summary example_registry
        (''Human Resource Management'',
         [''CHEDS-HR-21'', ''CHEDS-HR-22'', ''CHEDS-HR-23'', ''CHEDS-HR-24''])
       = Inr \<lparr>dr_domain = ''Human Resource Management'', dr_products = 2,
              dr_total_products = 4, dr_records = 7, dr_avg_columns = Finite 5,
              dr_coverage_pct = Finite 50\<rparr>"
    unfolding domain_summary_eq[OF example_registry_columns] lp
    by (simp add: round_double_values example_registry_def entry_def blank_table_def)
  have b: "domain_summary example_registry (''Financial Management'', [''CHEDS-FIN-25''])
       = Inr \<lparr>dr_domain = ''Financial Management'', dr_products = 1,
              dr_total_products = 1, dr_records = 3, dr_avg_columns = Finite 2,
              dr_coverage_pct = Finite 100\<rparr>"
    unfolding domain_summary_eq[OF example_registry_columns] lp
    by (simp add: round_double_values example_registry_def entry_def blank_table_def)
  have c: "domain_summary example_registry (''No products'', [])
       = Inr \<lparr>dr_domain = ''No products'', dr_products = 0,
              dr_total_products = 0, dr_records = 0, dr_avg_columns = Finite 0,
              dr_coverage_pct = Finite 0\<rparr>"
    unfolding domain_summary_eq[OF example_registry_columns] lp
    by simp
  have d: "domain_summary one_research_product
        (''Research'',
         [''CHEDS-RES-26'', ''CHEDS-RES-27'', ''CHEDS-RES-28'', ''CHEDS-RES-29'',
          ''CHEDS-RES-30'', ''CHEDS-RES-31'', ''CHEDS-RES-32''])
       = Inr \<lparr>dr_domain = ''Research'', dr_products = 1,
              dr_total_products = 7, dr_records = 1, dr_avg_columns = Finite 1,
              dr_coverage_pct = Finite (2010535547933257 / 140737488355328)\<rparr>"
    unfolding domain_summary_eq[OF one_research_product_columns] lp
    by (simp add: round_double_values round_double_one_seventh one_research_product_def
        entry_def blank_table_def)
  have e: "distinct [''CHEDS-HR-21'', ''CHEDS-HR-22'', ''CHEDS-HR-23'', ''CHEDS-HR-24'']"
    by simp
  from hr a have "dr_products \<lparr>dr_domain = ''Human Resource Management'', dr_products = 2,
              dr_total_products = 4, dr_records = 7, dr_avg_columns = Finite 5,
              dr_coverage_pct = Finite 50\<rparr> \<le> 4"
    by auto
  have f: "list_all (\<lambda>kv. 0 \<le> columns (snd kv) \<and> columns (snd kv) < 2 ^ 63) example_registry"
    "list_all (\<lambda>kv. 0 \<le> columns (snd kv) \<and> columns (snd kv) < 2 ^ 63) one_research_product"
    using example_registry_columns one_research_product_columns by (simp_all add: list_all_iff)
  from f e a b c d hr fin none res show ?thesis by blast
qed

subsection \<open>The loaded flag and the Registry\<close>

lemma update_not_Nil: "AList.update k v al \<noteq> []"
  by (cases al) auto

lemma reload_loop_nonempty:
  "reload_loop fs ds0 = Inr ds \<Longrightarrow> fs \<noteq> [] \<or> ds0 \<noteq> [] \<Longrightarrow> ds \<noteq> []"
proof (induction fs arbitrary: ds0)
  case Nil
  then show ?case by simp
next
  case (Cons f fs)
  from Cons.prems(1) obtain df where df: "read_csv f = Inr df"
    and rest: "reload_loop fs (AList.update (path_product_id (name f)) (entry df (name f)) ds0) = Inr ds"
    by (auto split: sum.splits)
  show ?case using Cons.IH[OF rest] by (simp add: update_not_Nil)
qed

lemma upload_loop_nonempty:
  "upload_loop fs s = (Inr u, s') \<Longrightarrow> fs \<noteq> [] \<or> datasets s \<noteq> [] \<Longrightarrow> datasets s' \<noteq> []"
proof (induction fs arbitrary: s)
  case Nil
  then show ?case by simp
next
  case (Cons f fs)
  from Cons.prems(1) obtain df where df: "read_csv f = Inr df"
    and rest: "upload_loop fs (s\<lparr>datasets :=
        AList.update (upload_product_id (name f)) (entry df (name f)) (datasets s)\<rparr>) = (Inr u, s')"
    by (auto split: sum.splits)
  show ?case using Cons.IH[OF rest] update_not_Nil by simp
qed

lemma upload_loop_data_loaded:
  "upload_loop fs s = (r, s') \<Longrightarrow> data_loaded s' = data_loaded s"
  by (induction fs arbitrary: s) (auto split: sum.splits)

lemma flag_startup:
  "data_loaded s = (datasets s \<noteq> []) \<Longrightarrow>
   data_loaded (startup_auto_load csv_dir s) = (datasets (startup_auto_load csv_dir s) \<noteq> [])"
  by (auto simp: startup_auto_load_def Let_def split: option.splits)

lemma flag_reload:
  "data_loaded s = (datasets s \<noteq> []) \<Longrightarrow>
   data_loaded (snd (auto_load_csv_files csv_dir s))
     = (datasets (snd (auto_load_csv_files csv_dir s)) \<noteq> [])"
  by (auto simp: auto_load_csv_files_def
      split: option.splits sum.splits dest: reload_loop_nonempty)

lemma flag_upload:
  assumes "data_loaded s = (datasets s \<noteq> [])" "upload_files fs s = (Inr (), s')"
  shows "data_loaded s' = (datasets s' \<noteq> [])"
proof (cases "fs = []")
  case True
  with assms show ?thesis by (simp add: upload_files_def)
next
  case False
  with assms(2) obtain s1 where l: "upload_loop fs s = (Inr (), s1)"
    and s': "s' = s1\<lparr>data_loaded := True\<rparr>"
    by (auto simp: upload_files_def split: prod.splits sum.splits)
  from upload_loop_nonempty[OF l] False have "datasets s1 \<noteq> []" by simp
  then show ?thesis by (simp add: s')
qed

lemma reachable_flag: "reachable s \<Longrightarrow> data_loaded s = (datasets s \<noteq> [])"
proof (induction rule: reachable.induct)
  case init
  show ?case by (simp add: initial_state_def)
next
  case (startup s csv_dir)
  from startup.IH show ?case by (rule flag_startup)
next
  case (reload s csv_dir)
  from reload.IH show ?case by (rule flag_reload)
next
  case (upload s fs s')
  from upload.IH upload.hyps(2) show ?case by (rule flag_upload)
qed

text \<open>
  Claim C6, as amended. At every session state reached from a fresh session by start-up
  loads, reloads and uploads that complete, \<^verbatim>\<open>data_loaded\<close> is true iff the Registry is
  non-empty; and a reload that finds no matching file (no directory, or an empty file
  set) returns \<^verbatim>\<open>False\<close> and leaves the Registry and the flag as they were.
\<close>

theorem data_loaded_iff_registry_nonempty:
  assumes "reachable s"
  shows "(data_loaded s \<longleftrightarrow> datasets s \<noteq> [])
       \<and> auto_load_csv_files None s = (Inr False, s)
       \<and> auto_load_csv_files (Some []) s = (Inr False, s)"
  using reachable_flag[OF assms]
  by (simp add: auto_load_csv_files_def)

text \<open>
  An upload that raises half-way is outside \<open>reachable\<close>: it leaves an entry in the
  Registry and the flag unset.
\<close>

lemma failed_upload_leaves_flag_unset:
  "upload_files [example_file, \<lparr>name = ''CHEDS-LT-02_b.csv'', read_csv = Inl ParseError\<rparr>]
     initial_state = (r, s') \<Longrightarrow>
   r = Inl ParseError \<and> datasets s' \<noteq> [] \<and> \<not> data_loaded s'"
  by (auto simp: upload_files_def example_file_def initial_state_def)

lemma loaded_once_eq:
  "loaded_once =
     \<lparr>data_loaded = True,
      datasets = [(''CHEDS-LT-01'', entry example_table ''CHEDS-LT-01_applicants.csv'')],
      auto_load_attempted = False\<rparr>"
  by (simp add: loaded_once_def auto_load_csv_files_def example_file_def initial_state_def
      path_product_id_def stem_def)

lemma reachable_loaded_once: "reachable loaded_once"
  unfolding loaded_once_def by (rule reachable.reload) (rule reachable.init)

text \<open>The invariant at a loaded session and at the fresh session.\<close>

theorem data_loaded_iff_registry_nonempty_witness:
  "reachable loaded_once
   \<and> data_loaded loaded_once \<and> datasets loaded_once \<noteq> []
   \<and> auto_load_csv_files (Some []) loaded_once = (Inr False, loaded_once)
   \<and> reachable initial_state
   \<and> \<not> data_loaded initial_state \<and> datasets initial_state = []"
proof -
  note loaded = data_loaded_iff_registry_nonempty[OF reachable_loaded_once]
  note fresh = data_loaded_iff_registry_nonempty[OF reachable.init]
  have a: "data_loaded loaded_once" by (simp add: loaded_once_eq)
  have b: "datasets initial_state = []" by (simp add: initial_state_def)
  from loaded a have c: "datasets loaded_once \<noteq> []" by blast
  from fresh b have d: "\<not> data_loaded initial_state" by blast
  from loaded have e: "auto_load_csv_files (Some []) loaded_once = (Inr False, loaded_once)"
    by blast
  show ?thesis using reachable_loaded_once reachable.init a b c d e by blast
qed

text \<open>
  Claim C6 as stated fails: after a load of one file, a reload that finds no file (an
  empty file set, or no directory) leaves the Registry with its entry and the flag true.
\<close>

theorem reload_without_files_keeps_registry:
  "reachable loaded_once
   \<and> datasets loaded_once
       = [(''CHEDS-LT-01'', entry example_table ''CHEDS-LT-01_applicants.csv'')]
   \<and> datasets (snd (auto_load_csv_files (Some []) loaded_once))
       = [(''CHEDS-LT-01'', entry example_table ''CHEDS-LT-01_applicants.csv'')]
   \<and> data_loaded (snd (auto_load_csv_files (Some []) loaded_once))
   \<and> datasets (snd (auto_load_csv_files None loaded_once))
       = [(''CHEDS-LT-01'', entry example_table ''CHEDS-LT-01_applicants.csv'')]
   \<and> data_loaded (snd (auto_load_csv_files None loaded_once))"
proof -
  have "datasets loaded_once
       = [(''CHEDS-LT-01'', entry example_table ''CHEDS-LT-01_applicants.csv'')]"
    by (simp add: loaded_once_eq)
  moreover have "data_loaded loaded_once" by (simp add: loaded_once_eq)
  moreover have "snd (auto_load_csv_files (Some []) loaded_once) = loaded_once"
    by (simp add: auto_load_csv_files_def)
  moreover have "snd (auto_load_csv_files None loaded_once) = loaded_once"
    by (simp add: auto_load_csv_files_def)
  ultimately show ?thesis using reachable_loaded_once by simp
qed

subsection \<open>Uploads into the Registry\<close>

lemma upload_loop_append:
  "upload_loop (xs @ ys) s =
     (case upload_loop xs s of
        (Inl e, s1) \<Rightarrow> (Inl e, s1)
      | (Inr u, s1) \<Rightarrow> upload_loop ys s1)"
  by (induction xs arbitrary: s) (auto split: sum.splits)

lemma upload_loop_frame:
  "upload_loop fs s = (r, s') \<Longrightarrow>
   k \<notin> (\<lambda>f. upload_product_id (name f)) ` set fs \<Longrightarrow>
   map_of (datasets s') k = map_of (datasets s) k"
proof (induction fs arbitrary: s)
  case Nil
  then show ?case by simp
next
  case (Cons f fs)
  show ?case
  proof (cases "read_csv f")
    case (Inl e)
    with Cons.prems show ?thesis by simp
  next
    case (Inr df)
    let ?s1 = "s\<lparr>datasets :=
        AList.update (upload_product_id (name f)) (entry df (name f)) (datasets s)\<rparr>"
    from Cons.prems(1) Inr have rest: "upload_loop fs ?s1 = (r, s')" by simp
    from Cons.prems(2) have k: "k \<noteq> upload_product_id (name f)"
      and k': "k \<notin> (\<lambda>f. upload_product_id (name f)) ` set fs" by auto
    from Cons.IH[OF rest k'] k show ?thesis by (simp add: update_conv')
  qed
qed

lemma upload_loop_dom_mono:
  "upload_loop fs s = (r, s') \<Longrightarrow> dom (map_of (datasets s)) \<subseteq> dom (map_of (datasets s'))"
proof (induction fs arbitrary: s)
  case Nil
  then show ?case by simp
next
  case (Cons f fs)
  show ?case
  proof (cases "read_csv f")
    case (Inl e)
    with Cons.prems show ?thesis by simp
  next
    case (Inr df)
    let ?s1 = "s\<lparr>datasets :=
        AList.update (upload_product_id (name f)) (entry df (name f)) (datasets s)\<rparr>"
    from Cons.prems(1) Inr have rest: "upload_loop fs ?s1 = (r, s')" by simp
    have "dom (map_of (datasets s)) \<subseteq> dom (map_of (datasets ?s1))"
      by (auto simp: update_conv')
    with Cons.IH[OF rest] show ?thesis by blast
  qed
qed

lemma upload_loop_all_parse:
  "\<forall>g\<in>set fs. \<not> isl (read_csv g) \<Longrightarrow> \<exists>s1. upload_loop fs s = (Inr (), s1)"
proof (induction fs arbitrary: s)
  case Nil
  show ?case by simp
next
  case (Cons f fs)
  then obtain df where "read_csv f = Inr df" by (cases "read_csv f") auto
  with Cons show ?case by simp
qed

lemma upload_loop_ok_iff:
  "(fst (upload_loop fs s) = Inr ()) = (\<forall>g\<in>set fs. \<not> isl (read_csv g))"
  by (induction fs arbitrary: s) (auto split: sum.splits)

lemma upload_loop_stores:
  assumes run: "upload_loop (pre @ f # post) s = (r, s')"
    and pre: "\<forall>g\<in>set pre. \<not> isl (read_csv g)"
    and f: "read_csv f = Inr df"
    and last: "upload_product_id (name f) \<notin> (\<lambda>g. upload_product_id (name g)) ` set post"
  shows "map_of (datasets s') (upload_product_id (name f)) = Some (entry df (name f))"
proof -
  from upload_loop_all_parse[OF pre] obtain s1 where s1: "upload_loop pre s = (Inr (), s1)"
    by blast
  let ?s2 = "s1\<lparr>datasets :=
      AList.update (upload_product_id (name f)) (entry df (name f)) (datasets s1)\<rparr>"
  from run s1 f have post: "upload_loop post ?s2 = (r, s')"
    by (simp add: upload_loop_append)
  from upload_loop_frame[OF post last] show ?thesis by (simp add: update_conv')
qed

lemma upload_files_loop:
  "upload_files fs s = (r, s') \<Longrightarrow>
   \<exists>s1. upload_loop fs s = (r, s1) \<and> datasets s' = datasets s1"
  by (auto simp: upload_files_def split: if_splits prod.splits sum.splits)

text \<open>What \<open>entry\<close> stores: the table, the file name and the two lengths.\<close>

lemma entry_fields:
  "data (entry df fname) = df"
  "filename (entry df fname) = fname"
  "rows (entry df fname) = int (length (df_rows df))"
  "columns (entry df fname) = int (length (df_columns df))"
  by (simp_all add: entry_def)

text \<open>
  What holds of every upload, whether it completes or raises: an entry whose product id
  is not an id of the batch is left as it was; no key is removed; and every file the
  loop reads (the files before it parse, and it parses) is stored under its product id,
  replacing what was there, and stays there unless a later file of the batch has the
  same id. The upload completes iff every file of the batch parses.
\<close>

lemma upload_files_partial_merge:
  assumes "upload_files fs s = (r, s')"
  shows "(\<forall>k. k \<notin> (\<lambda>f. upload_product_id (name f)) ` set fs \<longrightarrow>
            map_of (datasets s') k = map_of (datasets s) k)
       \<and> dom (map_of (datasets s)) \<subseteq> dom (map_of (datasets s'))
       \<and> (\<forall>pre f post df.
            fs = pre @ f # post \<and> (\<forall>g\<in>set pre. \<not> isl (read_csv g)) \<and> read_csv f = Inr df
            \<and> upload_product_id (name f) \<notin> (\<lambda>g. upload_product_id (name g)) ` set post \<longrightarrow>
            map_of (datasets s') (upload_product_id (name f))
              = Some \<lparr>data = df, filename = name f,
                      rows = int (length (df_rows df)),
                      columns = int (length (df_columns df))\<rparr>)
       \<and> ((r = Inr ()) = (\<forall>g\<in>set fs. \<not> isl (read_csv g)))"
proof -
  from upload_files_loop[OF assms] obtain s1
    where l: "upload_loop fs s = (r, s1)" and d: "datasets s' = datasets s1" by blast
  have a: "\<forall>k. k \<notin> (\<lambda>f. upload_product_id (name f)) ` set fs \<longrightarrow>
            map_of (datasets s') k = map_of (datasets s) k"
    using upload_loop_frame[OF l] by (simp add: d)
  have b: "dom (map_of (datasets s)) \<subseteq> dom (map_of (datasets s'))"
    using upload_loop_dom_mono[OF l] by (simp add: d)
  have c: "\<forall>pre f post df.
            fs = pre @ f # post \<and> (\<forall>g\<in>set pre. \<not> isl (read_csv g)) \<and> read_csv f = Inr df
            \<and> upload_product_id (name f) \<notin> (\<lambda>g. upload_product_id (name g)) ` set post \<longrightarrow>
            map_of (datasets s') (upload_product_id (name f))
              = Some \<lparr>data = df, filename = name f,
                      rows = int (length (df_rows df)),
                      columns = int (length (df_columns df))\<rparr>"
  proof (intro allI impI)
    fix pre f post df
    assume h: "fs = pre @ f # post \<and> (\<forall>g\<in>set pre. \<not> isl (read_csv g)) \<and> read_csv f = Inr df
            \<and> upload_product_id (name f) \<notin> (\<lambda>g. upload_product_id (name g)) ` set post"
    then have run: "upload_loop (pre @ f # post) s = (r, s1)" using l by simp
    from upload_loop_stores[OF run] h
    show "map_of (datasets s') (upload_product_id (name f))
              = Some \<lparr>data = df, filename = name f,
                      rows = int (length (df_rows df)),
                      columns = int (length (df_columns df))\<rparr>"
      by (simp add: d entry_def)
  qed
  have e: "(r = Inr ()) = (\<forall>g\<in>set fs. \<not> isl (read_csv g))"
    using upload_loop_ok_iff[of fs s] l by simp
  from a b c e show ?thesis by blast
qed

text \<open>
  An upload of a new CHEDS-LT-01 and of CHEDS-RES-26 into a Registry of four products:
  CHEDS-LT-01 is overwritten in place, CHEDS-RES-26 is appended, the other three entries
  are untouched.
\<close>

lemma upload_batch_result:
  "upload_files upload_batch prior_session =
     (Inr (),
      \<lparr>data_loaded = True,
       datasets =
         [(''CHEDS-HR-21'',
           \<lparr>data = blank_table 5 4, filename = ''CHEDS-HR-21_y.csv'', rows = 5, columns = 4\<rparr>),
          (''CHEDS-HR-23'',
           \<lparr>data = blank_table 2 6, filename = ''CHEDS-HR-23_z.csv'', rows = 2, columns = 6\<rparr>),
          (''CHEDS-FIN-25'',
           \<lparr>data = blank_table 3 2, filename = ''CHEDS-FIN-25_f.csv'', rows = 3, columns = 2\<rparr>),
          (''CHEDS-LT-01'',
           \<lparr>data = blank_table 2 3, filename = ''CHEDS-LT-01_new.csv'', rows = 2, columns = 3\<rparr>),
          (''CHEDS-RES-26'',
           \<lparr>data = blank_table 1 1, filename = ''CHEDS-RES-26_grants.csv'', rows = 1,
             columns = 1\<rparr>)],
       auto_load_attempted = True\<rparr>)"
  by (simp add: upload_files_def upload_batch_def prior_session_def example_registry_def
      upload_product_id_def entry_def blank_table_def)

text \<open>
  Claim C9 (for every upload batch, each uploaded entry overwrites the existing entry
  with the same product id, and entries outside the batch are left untouched). The
  upload loop reads the files in order with no \<^verbatim>\<open>try\<close>: in a batch whose first file is
  malformed the loop raises there, the CHEDS-LT-01 file behind it is never read, and the
  Registry keeps the old CHEDS-LT-01 entry. Uploaded alone, the same file replaces it.
\<close>

theorem upload_after_malformed_file_not_stored:
  "upload_files
     [\<lparr>name = ''CHEDS-HR-22_broken.csv'', read_csv = Inl ParseError\<rparr>,
      \<lparr>name = ''CHEDS-LT-01_new.csv'', read_csv = Inr (blank_table 2 3)\<rparr>] prior_session
     = (Inl ParseError, prior_session)
   \<and> map_of (datasets (snd (upload_files
         [\<lparr>name = ''CHEDS-HR-22_broken.csv'', read_csv = Inl ParseError\<rparr>,
          \<lparr>name = ''CHEDS-LT-01_new.csv'', read_csv = Inr (blank_table 2 3)\<rparr>]
         prior_session))) ''CHEDS-LT-01''
       = Some \<lparr>data = blank_table 10 3, filename = ''CHEDS-LT-01_x.csv'', rows = 10,
               columns = 3\<rparr>
   \<and> map_of (datasets (snd (upload_files
         [\<lparr>name = ''CHEDS-LT-01_new.csv'', read_csv = Inr (blank_table 2 3)\<rparr>]
         prior_session))) ''CHEDS-LT-01''
       = Some \<lparr>data = blank_table 2 3, filename = ''CHEDS-LT-01_new.csv'', rows = 2,
               columns = 3\<rparr>"
  by (simp add: upload_files_def prior_session_def example_registry_def
      upload_product_id_def entry_def blank_table_def)

subsection \<open>Registry keys stay unique\<close>

text \<open>
  Every loader writes with \<open>AList.update\<close>, so the association list of a reachable
  session has distinct keys: it is a dict, as the overview metrics assume.
\<close>

lemma startup_loop_distinct:
  "distinct (map fst ds) \<Longrightarrow> distinct (map fst (startup_loop fs ds))"
  by (induction fs arbitrary: ds) (auto split: sum.splits simp: distinct_update)

lemma reload_loop_distinct:
  "reload_loop fs ds0 = Inr ds \<Longrightarrow> distinct (map fst ds0) \<Longrightarrow> distinct (map fst ds)"
  by (induction fs arbitrary: ds0) (auto split: sum.splits simp: distinct_update)

lemma upload_loop_distinct:
  "upload_loop fs s = (r, s') \<Longrightarrow> distinct (map fst (datasets s)) \<Longrightarrow>
   distinct (map fst (datasets s'))"
  by (induction fs arbitrary: s) (auto split: sum.splits simp: distinct_update)

lemma reachable_distinct_keys: "reachable s \<Longrightarrow> distinct (map fst (datasets s))"
proof (induction rule: reachable.induct)
  case init
  show ?case by (simp add: initial_state_def)
next
  case (startup s csv_dir)
  then show ?case
    by (auto simp: startup_auto_load_def Let_def startup_loop_distinct split: option.splits)
next
  case (reload s csv_dir)
  then show ?case
    by (auto simp: auto_load_csv_files_def split: option.splits sum.splits
        dest: reload_loop_distinct)
next
  case (upload s fs s')
  from upload_files_loop[OF upload.hyps(2)] obtain s1
    where "upload_loop fs s = (Inr (), s1)" "datasets s' = datasets s1" by blast
  with upload.IH upload_loop_distinct show ?case by metis
qed

end
